theory Spec2Isabelle
  imports Complex_Main "HOL-Library.Monad_Syntax"
begin

section \<open>Values\<close>

text \<open>
  The engine is written in TypeScript. A JavaScript number that the code uses as an index, a
  coordinate or a counter is an \<^typ>\<open>int\<close> here; the lock-delay counter and the centring
  offset, which hold fractions, are \<^typ>\<open>rat\<close>. An exception thrown by the source
  (\<open>TypeError\<close> on reading a property of \<open>undefined\<close>, \<open>RangeError\<close> from \<open>Array(n)\<close>)
  is the value \<open>None\<close> of an \<open>option\<close> result. Reading an array out of range, which
  yields \<open>undefined\<close> in JavaScript, yields the cell \<open>Undefined\<close>.
\<close>

datatype TetrominoColour =
  Cyan | Blue | Orange | Yellow | Green | Purple | Red | Grey | Brown

text \<open>
  A cell of a \<open>Shape\<close> is a number, a cell of a \<open>Floor\<close> is a colour or the number 0;
  both are matrices of \<open>cell\<close>.
\<close>

datatype cell = Num int | Colour TetrominoColour | Undefined

type_synonym Matrix = "cell list list"
type_synonym Shape = Matrix
type_synonym Floor = Matrix

text \<open>JavaScript's \<open>Boolean(v)\<close>: 0 and \<open>undefined\<close> are falsy, a colour name is a non-empty string.\<close>

fun truthy :: "cell \<Rightarrow> bool" where
  "truthy (Num n) = (n \<noteq> 0)"
| "truthy (Colour c) = True"
| "truthy Undefined = False"

text \<open>\<open>row[i]\<close> for an index \<open>i\<close> that is a natural number.\<close>

definition cell_at :: "cell list \<Rightarrow> nat \<Rightarrow> cell" where
  "cell_at row i = (if i < length row then row ! i else Undefined)"

text \<open>\<open>xs[i]\<close> for any integer \<open>i\<close>, where the source goes on to read a property of the result.\<close>

definition index :: "'a list \<Rightarrow> int \<Rightarrow> 'a option" where
  "index xs i = (if 0 \<le> i \<and> i < int (length xs) then Some (xs ! nat i) else None)"

text \<open>The remainder operator \<open>%\<close>: the result has the sign of the dividend.\<close>

definition js_rem :: "int \<Rightarrow> int \<Rightarrow> int" where
  "js_rem a b = (if 0 \<le> a then a mod \<bar>b\<bar> else - ((- a) mod \<bar>b\<bar>))"

text \<open>\<open>xs.slice(a, b)\<close> and \<open>xs.slice(a)\<close>: a negative bound counts from the end.\<close>

definition slice_bound :: "nat \<Rightarrow> int \<Rightarrow> nat" where
  "slice_bound len i = (if i < 0 then nat (max 0 (int len + i)) else min (nat i) len)"

definition slice :: "'a list \<Rightarrow> int \<Rightarrow> int \<Rightarrow> 'a list" where
  "slice xs a b = drop (slice_bound (length xs) a) (take (slice_bound (length xs) b) xs)"

definition slice_from :: "'a list \<Rightarrow> int \<Rightarrow> 'a list" where
  "slice_from xs a = drop (slice_bound (length xs) a) xs"

text \<open>\<open>xs.some(p)\<close> for a callback that may throw: stops at the first truthy result.\<close>

fun some_opt :: "('a \<Rightarrow> bool option) \<Rightarrow> 'a list \<Rightarrow> bool option" where
  "some_opt p [] = Some False"
| "some_opt p (x # xs) =
     (case p x of None \<Rightarrow> None | Some True \<Rightarrow> Some True | Some False \<Rightarrow> some_opt p xs)"

text \<open>\<open>xs.findIndex(p)\<close>: the index of the first element satisfying \<open>p\<close>, or \<open>-1\<close>.\<close>

definition findIndex :: "('a \<Rightarrow> bool) \<Rightarrow> 'a list \<Rightarrow> int" where
  "findIndex p xs = (if list_ex p xs then int (length (takeWhile (\<lambda>x. \<not> p x) xs)) else - 1)"

text \<open>The pairs (element, index) that a callback of \<open>map\<close> or \<open>some\<close> receives.\<close>

definition enumerate_from0 :: "'a list \<Rightarrow> ('a \<times> nat) list" where
  "enumerate_from0 xs = zip xs [0..<length xs]"

section \<open>utils.ts\<close>

definition range_js :: "int \<Rightarrow> int list option" where
  "range_js n = (if n < 0 \<or> 4294967295 < n then None else Some (map int [0..<nat n]))"

definition withinBound :: "Matrix \<Rightarrow> int \<Rightarrow> int \<Rightarrow> bool option" where
  "withinBound matrix x y =
     (if \<not> x \<ge> 0 then Some False
      else if \<not> y \<ge> 0 then Some False
      else case matrix of
             [] \<Rightarrow> None
           | r0 # _ \<Rightarrow> Some (x < int (length r0) \<and> y < int (length matrix)))"

definition chain_js :: "('a \<Rightarrow> 'a option) \<Rightarrow> 'a \<Rightarrow> int \<Rightarrow> 'a option" where
  "chain_js f e n =
     (case range_js n of
        None \<Rightarrow> None
      | Some is \<Rightarrow> foldl (\<lambda>a _. Option.bind a f) (Some e) is)"

definition pureReverse :: "'a list \<Rightarrow> 'a list" where
  "pureReverse arr = foldl (\<lambda>a e. e # a) [] arr"

definition rotateMatrixRight :: "Matrix \<Rightarrow> Matrix option" where
  "rotateMatrixRight matrix =
     (let reversedRows = pureReverse matrix in
      case matrix of
        [] \<Rightarrow> None
      | r0 # _ \<Rightarrow> Some (map (\<lambda>i. map (\<lambda>row. cell_at row i) reversedRows) [0..<length r0]))"

definition rotateMatrixLeft :: "Matrix \<Rightarrow> Matrix option" where
  "rotateMatrixLeft matrix = chain_js rotateMatrixRight matrix 3"

definition transposeMatrix :: "Matrix \<Rightarrow> Matrix option" where
  "transposeMatrix matrix =
     (case matrix of
        [] \<Rightarrow> None
      | r0 # _ \<Rightarrow> Some (map (\<lambda>i. map (\<lambda>row. cell_at row i) matrix) [0..<length r0]))"

definition firstFilledRow :: "Matrix \<Rightarrow> int" where
  "firstFilledRow matrix = findIndex (\<lambda>row. length (filter truthy row) \<noteq> 0) matrix"

definition lastFilledRow :: "Matrix \<Rightarrow> int" where
  "lastFilledRow matrix = int (length matrix) - 1 - firstFilledRow (pureReverse matrix)"

definition firstFilledCol :: "Matrix \<Rightarrow> int option" where
  "firstFilledCol matrix = map_option firstFilledRow (transposeMatrix matrix)"

definition lastFilledCol :: "Matrix \<Rightarrow> int option" where
  "lastFilledCol matrix =
     (case matrix of
        [] \<Rightarrow> None
      | r0 # _ \<Rightarrow>
          map_option (\<lambda>t. int (length r0) - 1 - firstFilledRow (pureReverse t))
            (transposeMatrix matrix))"

datatype Direction = Dir_x | Dir_y

definition bestPosition :: "int \<Rightarrow> Direction \<Rightarrow> Shape \<Rightarrow> rat option" where
  "bestPosition step direction shape = do {
     lastFilled \<leftarrow> (if direction = Dir_x then lastFilledCol shape else Some (lastFilledRow shape));
     firstFilled \<leftarrow> (if direction = Dir_x then firstFilledCol shape else Some (firstFilledRow shape));
     Some ((of_int step - (of_int lastFilled - of_int firstFilled + 1)) / 2 - of_int firstFilled)
   }"

text \<open>
  \<open>matrix.toString()\<close>: the rows joined by commas, each row being its cells joined by
  commas; \<open>undefined\<close> prints as the empty string.
\<close>

fun string_of_nat :: "nat \<Rightarrow> string" where
  "string_of_nat n =
     (if n < 10 then [''0123456789'' ! n]
      else string_of_nat (n div 10) @ [''0123456789'' ! (n mod 10)])"

declare string_of_nat.simps [simp del]

definition string_of_int :: "int \<Rightarrow> string" where
  "string_of_int i = (if i < 0 then CHR ''-'' # string_of_nat (nat (- i)) else string_of_nat (nat i))"

fun colour_name :: "TetrominoColour \<Rightarrow> string" where
  "colour_name Cyan = ''cyan''"
| "colour_name Blue = ''blue''"
| "colour_name Orange = ''orange''"
| "colour_name Yellow = ''yellow''"
| "colour_name Green = ''green''"
| "colour_name Purple = ''purple''"
| "colour_name Red = ''red''"
| "colour_name Grey = ''grey''"
| "colour_name Brown = ''brown''"

fun cell_toString :: "cell \<Rightarrow> string" where
  "cell_toString (Num n) = string_of_int n"
| "cell_toString (Colour c) = colour_name c"
| "cell_toString Undefined = []"

fun join_comma :: "string list \<Rightarrow> string" where
  "join_comma [] = []"
| "join_comma [s] = s"
| "join_comma (s # t # ss) = s @ CHR '','' # join_comma (t # ss)"

definition matrix_toString :: "Matrix \<Rightarrow> string" where
  "matrix_toString m = join_comma (map (\<lambda>row. join_comma (map cell_toString row)) m)"

definition simillarMatrix :: "Matrix \<Rightarrow> Matrix \<Rightarrow> bool option" where
  "simillarMatrix matrix1 matrix2 = do {
     r \<leftarrow> range_js 4;
     ms \<leftarrow> those (map (chain_js rotateMatrixRight matrix1) r);
     Some (list_ex (\<lambda>m. matrix_toString m = matrix_toString matrix2) ms)
   }"

subsection \<open>The pseudo-random sequence\<close>

text \<open>
  \<open>RNG.hash\<close> computes \<open>(a * seed + c) % m\<close> in double-precision arithmetic: the product
  and the sum are each rounded to the nearest number with a 53-bit significand (ties to
  even), and the remainder is exact. \<open>round_double\<close> is that rounding on integers (of a
  magnitude below \<open>2\<^sup>1\<^sup>0\<^sup>2\<^sup>4\<close>, where doubles do not overflow; the seeds of this program
  stay below \<open>2\<^sup>3\<^sup>1\<close>). Everywhere else the numbers are integers far below \<open>2\<^sup>5\<^sup>3\<close>, on
  which double-precision arithmetic is exact; the lock-delay counter, which adds up
  \<open>1000 / 60\<close>, is an exact rational here.
\<close>

function bit_length :: "int \<Rightarrow> nat" where
  "bit_length n = (if n \<le> 0 then 0 else Suc (bit_length (n div 2)))"
  by pat_completeness auto
termination
  by (relation "measure nat") auto

declare bit_length.simps [simp del]

definition round_double :: "int \<Rightarrow> int" where
  "round_double n =
     (let e = bit_length \<bar>n\<bar> - 53; q = n div 2 ^ e; r = n mod 2 ^ e
      in if 2 ^ e < 2 * r \<or> (2 * r = 2 ^ e \<and> odd q) then (q + 1) * 2 ^ e else q * 2 ^ e)"

definition hash :: "int \<Rightarrow> int" where
  "hash seed = js_rem (round_double (round_double (1103515245 * seed) + 12345)) 2147483648"

text \<open>
  A \<open>LazyRNG\<close> object is the closure \<open>_next(seed)\<close>; it is determined by the seed it
  captures. Its property \<open>value\<close> is \<open>LazyRNG_value\<close>, its method \<open>next\<close> is
  \<open>LazyRNG_next\<close>.
\<close>

datatype LazyRNG = LazyRNG (seed_of: int)

definition LazyRNG_value :: "LazyRNG \<Rightarrow> int" where
  "LazyRNG_value r = hash (seed_of r)"

definition LazyRNG_next :: "LazyRNG \<Rightarrow> LazyRNG" where
  "LazyRNG_next r = LazyRNG (hash (seed_of r))"

definition lazyRNG :: "int \<Rightarrow> LazyRNG" where
  "lazyRNG seed = LazyRNG seed"

section \<open>types.ts and const.ts\<close>

datatype Pos = Pos (pos_x: int) (pos_y: int)

definition subtract :: "Pos \<Rightarrow> Pos \<Rightarrow> Pos" where
  "subtract this p = Pos (pos_x this - pos_x p) (pos_y this - pos_y p)"

definition add :: "Pos \<Rightarrow> Pos \<Rightarrow> Pos" where
  "add this p = Pos (pos_x this + pos_x p) (pos_y this + pos_y p)"

text \<open>
  \<open>FRAME_MS\<close> is the exact quotient; the code holds the double nearest to it, which is
  slightly larger, so the stored lock-delay counter differs in its last digits. A counter
  that reaches \<open>LOCK_DELAY\<close> here reaches it in the code as well.
\<close>

definition FRAME_MS :: rat where "FRAME_MS = 1000 / 60"
definition LOCK_DELAY :: rat where "LOCK_DELAY = 500"
definition GRID_WIDTH :: int where "GRID_WIDTH = 10"
definition GRID_HEIGHT :: int where "GRID_HEIGHT = 20"
definition SEED :: int where "SEED = 20"
definition LEVEL_CUTOFF :: int where "LEVEL_CUTOFF = 2"

definition GRAVITY :: "int list" where
  "GRAVITY = [48, 43, 38, 33, 28, 23, 18, 13, 8, 6,
              5, 5, 5,
              4, 4, 4,
              3, 3, 3,
              2, 2, 2, 2, 2, 2, 2, 2, 2, 2,
              1]"

section \<open>tetrominos.ts\<close>

definition IBlock :: Shape where
  "IBlock = map (map Num)
     [[0, 0, 0, 0, 0],
      [0, 0, 0, 0, 0],
      [0, 1, 1, 1, 1],
      [0, 0, 0, 0, 0],
      [0, 0, 0, 0, 0]]"

definition JBlock :: Shape where
  "JBlock = map (map Num)
     [[1, 0, 0],
      [1, 1, 1],
      [0, 0, 0]]"

definition LBlock :: Shape where
  "LBlock = map (map Num)
     [[0, 0, 1],
      [1, 1, 1],
      [0, 0, 0]]"

definition OBlock :: Shape where
  "OBlock = map (map Num)
     [[0, 1, 1],
      [0, 1, 1],
      [0, 0, 0]]"

definition SBlock :: Shape where
  "SBlock = map (map Num)
     [[0, 1, 1],
      [1, 1, 0],
      [0, 0, 0]]"

definition TBlock :: Shape where
  "TBlock = map (map Num)
     [[0, 1, 0],
      [1, 1, 1],
      [0, 0, 0]]"

definition ZBlock :: Shape where
  "ZBlock = map (map Num)
     [[1, 1, 0],
      [0, 1, 1],
      [0, 0, 0]]"

definition JLSTZ_OFFSETS :: "Pos list list" where
  "JLSTZ_OFFSETS =
     [[Pos 0 0, Pos 0 0, Pos 0 0, Pos 0 0, Pos 0 0],
      [Pos 0 0, Pos 1 0, Pos 1 1, Pos 0 (- 2), Pos 1 (- 2)],
      [Pos 0 0, Pos 0 0, Pos 0 0, Pos 0 0, Pos 0 0],
      [Pos 0 0, Pos (- 1) 0, Pos (- 1) 1, Pos 0 (- 2), Pos (- 1) (- 2)]]"

definition I_OFFSETS :: "Pos list list" where
  "I_OFFSETS =
     [[Pos 0 0, Pos (- 1) 0, Pos 2 0, Pos (- 1) 0, Pos 2 0],
      [Pos (- 1) 0, Pos 0 0, Pos 0 0, Pos 0 (- 1), Pos 0 2],
      [Pos (- 1) (- 1), Pos 1 (- 1), Pos (- 2) (- 1), Pos 1 0, Pos (- 2) 0],
      [Pos 0 (- 1), Pos 0 (- 1), Pos 0 (- 1), Pos 0 1, Pos 0 (- 2)]]"

definition O_OFFSETS :: "Pos list list" where
  "O_OFFSETS =
     [[Pos 0 0],
      [Pos 0 1],
      [Pos (- 1) 1],
      [Pos (- 1) 0]]"

record Tetromino =
  shape :: Shape
  colour :: TetrominoColour
  pos :: Pos
  rotationState :: int

text \<open>The constant \<open>offsets\<close> of \<open>getData\<close>: the table chosen by the shape of \<open>from\<close>.\<close>

definition getData_offsets :: "Tetromino \<Rightarrow> Pos list list option" where
  "getData_offsets from = do {
     isI \<leftarrow> simillarMatrix (shape from) IBlock;
     if isI then Some I_OFFSETS
     else do {
       isO \<leftarrow> simillarMatrix (shape from) OBlock;
       Some (if isO then O_OFFSETS else JLSTZ_OFFSETS)
     }
   }"

definition getData :: "Tetromino \<Rightarrow> Tetromino \<Rightarrow> Pos list option" where
  "getData from to = do {
     offsets \<leftarrow> getData_offsets from;
     current \<leftarrow> index offsets (rotationState from);
     next \<leftarrow> index offsets (rotationState to);
     those (map (\<lambda>(p, i). map_option (subtract p) (index next (int i)))
              (enumerate_from0 current))
   }"

definition moveBy :: "Tetromino \<Rightarrow> Pos \<Rightarrow> Tetromino" where
  "moveBy this d =
     \<lparr>shape = shape this, colour = colour this, pos = add (pos this) d,
      rotationState = rotationState this\<rparr>"

definition moveTo :: "Tetromino \<Rightarrow> Pos \<Rightarrow> Tetromino" where
  "moveTo this newPos =
     \<lparr>shape = shape this, colour = colour this, pos = newPos,
      rotationState = rotationState this\<rparr>"

definition overlaps :: "Tetromino \<Rightarrow> Floor \<Rightarrow> bool option" where
  "overlaps this f =
     some_opt (\<lambda>(row, y).
       some_opt (\<lambda>(c, x).
         let relY = pos_y (pos this) + int y;
             relX = pos_x (pos this) + int x
         in do {
           inFloor \<leftarrow> withinBound f relX relY;
           Some (if inFloor then truthy (cell_at (f ! nat relY) (nat relX)) \<and> truthy c
                 else False)
         }) (enumerate_from0 row)) (enumerate_from0 (shape this))"

definition validPos :: "Tetromino \<Rightarrow> Floor \<Rightarrow> bool option" where
  "validPos this f = do {
     c1 \<leftarrow> firstFilledCol (shape this);
     if \<not> pos_x (pos this) + c1 \<ge> 0 then Some False
     else do {
       c2 \<leftarrow> lastFilledCol (shape this);
       case f of
         [] \<Rightarrow> None
       | f0 # _ \<Rightarrow>
           if \<not> pos_x (pos this) + c2 + 1 \<le> int (length f0) then Some False
           else if \<not> pos_y (pos this) + firstFilledRow (shape this) \<ge> - 2 then Some False
           else if \<not> pos_y (pos this) + lastFilledRow (shape this) + 1 \<le> int (length f)
             then Some False
           else map_option Not (overlaps this f)
     }
   }"

text \<open>
  \<open>drop\<close> (here \<open>drop_js\<close>) recurses while the piece one row lower is valid. Every
  recursive call moves the piece down, and a valid piece has its last filled row inside
  the floor, which bounds the recursion.
\<close>

function drop_js :: "Tetromino \<Rightarrow> Floor \<Rightarrow> Tetromino option" where
  "drop_js this f =
     (case validPos (moveBy this (Pos 0 1)) f of
        None \<Rightarrow> None
      | Some v \<Rightarrow> if \<not> v then Some this else drop_js (moveBy this (Pos 0 1)) f)"
  by pat_completeness auto
termination
proof (relation "measure (\<lambda>(t, f). nat (int (length f) - lastFilledRow (shape t) - pos_y (pos t)))")
  show "wf (measure (\<lambda>(t, f). nat (int (length f) - lastFilledRow (shape t) - pos_y (pos t))))"
    by simp
next
  fix this :: Tetromino and f :: Floor and v :: bool
  assume "validPos (moveBy this (Pos 0 1)) f = Some v" and "\<not> \<not> v"
  then have "validPos (moveBy this (Pos 0 1)) f = Some True"
    by simp
  then have "pos_y (pos (moveBy this (Pos 0 1))) + lastFilledRow (shape (moveBy this (Pos 0 1))) + 1
               \<le> int (length f)"
    by (cases f) (auto simp: validPos_def Option.bind_eq_Some_conv split: if_splits)
  then show "((moveBy this (Pos 0 1), f), (this, f))
          \<in> measure (\<lambda>(t, f). nat (int (length f) - lastFilledRow (shape t) - pos_y (pos t)))"
    by (simp add: moveBy_def add_def)
qed

declare drop_js.simps [simp del]

text \<open>The method \<open>__rotate\<close>.\<close>

definition private_rotate :: "Tetromino \<Rightarrow> Tetromino \<Rightarrow> Floor \<Rightarrow> Tetromino option" where
  "private_rotate this to f = do {
     wallKickData \<leftarrow> getData this to;
     tested \<leftarrow> those (map (\<lambda>t. map_option (Pair t) (validPos t f))
                        (map (\<lambda>p. moveBy to p) wallKickData));
     let possibleTetrominos = map fst (filter snd tested)
     in Some (if length possibleTetrominos = 0 then this else possibleTetrominos ! 0)
   }"

text \<open>The constant \<open>rotated\<close> of \<open>rotateLeft\<close> and of \<open>rotateRight\<close>.\<close>

definition rotateLeft_rotated :: "Tetromino \<Rightarrow> Tetromino option" where
  "rotateLeft_rotated this =
     (let nextState = js_rem (rotationState this - 1) 4
      in map_option
           (\<lambda>sh. \<lparr>shape = sh, colour = colour this, pos = pos this,
                  rotationState = (if nextState \<ge> 0 then nextState else 4 + nextState)\<rparr>)
           (rotateMatrixLeft (shape this)))"

definition rotateRight_rotated :: "Tetromino \<Rightarrow> Tetromino option" where
  "rotateRight_rotated this =
     map_option
       (\<lambda>sh. \<lparr>shape = sh, colour = colour this, pos = pos this,
              rotationState = js_rem (rotationState this + 1) 4\<rparr>)
       (rotateMatrixRight (shape this))"

definition rotateLeft :: "Tetromino \<Rightarrow> Floor \<Rightarrow> Tetromino option" where
  "rotateLeft this f = do { rotated \<leftarrow> rotateLeft_rotated this; private_rotate this rotated f }"

definition rotateRight :: "Tetromino \<Rightarrow> Floor \<Rightarrow> Tetromino option" where
  "rotateRight this f = do { rotated \<leftarrow> rotateRight_rotated this; private_rotate this rotated f }"

definition centerXPosition :: "Shape \<Rightarrow> rat option" where
  "centerXPosition = bestPosition GRID_WIDTH Dir_x"

definition TETROMINOES :: "(Shape \<times> TetrominoColour) list" where
  "TETROMINOES =
     [(IBlock, Cyan), (JBlock, Blue), (LBlock, Orange), (OBlock, Yellow),
      (SBlock, Green), (TBlock, Purple), (ZBlock, Red)]"

definition getTetromino :: "int \<Rightarrow> Tetromino option" where
  "getTetromino h = do {
     piece \<leftarrow> index TETROMINOES (js_rem h (int (length TETROMINOES)));
     cx \<leftarrow> centerXPosition (fst piece);
     Some \<lparr>shape = fst piece, colour = snd piece,
           pos = Pos \<lfloor>cx\<rfloor> (- 1 * firstFilledRow (fst piece) - 2),
           rotationState = 0\<rparr>
   }"

section \<open>state.ts\<close>

record State =
  gameEnd :: bool
  score :: int
  highScore :: int
  level :: int
  floor_js :: Floor
  active :: Tetromino
  "next" :: Tetromino
  rng :: LazyRNG
  cleared :: int
  highlight :: Tetromino
  lockDelayCount :: rat
  hold :: "Tetromino option"
  swapped :: bool
  isPaused :: bool
  gravityOffset :: int
  framesInCurrentRow :: int
  opponentConnected :: bool
  recentClear :: int

datatype GameEvent =
  Tick | Rotate int | Move Pos | Drop | LockDelay | Hold | Restart
| Pause bool | Down bool | Connect bool | GarbageOut int

definition makeFloor :: "int \<Rightarrow> TetrominoColour option \<Rightarrow> Floor option" where
  "makeFloor height col = do {
     rows \<leftarrow> range_js height;
     those (map (\<lambda>_. map_option (map (\<lambda>_. case col of Some c \<Rightarrow> Colour c | None \<Rightarrow> Num 0))
                         (range_js GRID_WIDTH)) rows)
   }"

text \<open>The function \<open>gameEnd\<close> on floors (the field of the state has the same name).\<close>

definition gameEnd_floor :: "Floor \<Rightarrow> bool option" where
  "gameEnd_floor f = (case f of [] \<Rightarrow> None | f0 # _ \<Rightarrow> Some (list_ex truthy f0))"

definition makeEmptyFloor :: "Floor option" where
  "makeEmptyFloor = makeFloor GRID_HEIGHT None"

definition pipe :: "'a \<Rightarrow> ('a \<Rightarrow> 'a option) list \<Rightarrow> 'a option" where
  "pipe arg fns = foldl (\<lambda>acc fn. Option.bind acc fn) (Some arg) fns"

definition updateHighlight :: "State \<Rightarrow> State option" where
  "updateHighlight s = map_option (\<lambda>h. s\<lparr>highlight := h\<rparr>) (drop_js (active s) (floor_js s))"

definition getNextTetromino :: "LazyRNG \<Rightarrow> Tetromino option" where
  "getNextTetromino r = getTetromino (LazyRNG_value (LazyRNG_next r))"

definition rolloverRng :: "State \<Rightarrow> State option" where
  "rolloverRng s =
     (let r = LazyRNG_next (rng s) in do {
        n \<leftarrow> getNextTetromino r;
        a \<leftarrow> getTetromino (LazyRNG_value r);
        Some (s\<lparr>rng := r, next := n, active := a\<rparr>)
      })"

definition resetLock :: "State \<Rightarrow> State option" where
  "resetLock s = Some (s\<lparr>lockDelayCount := 0\<rparr>)"

definition resetGravity :: "State \<Rightarrow> State option" where
  "resetGravity s = Some (s\<lparr>gravityOffset := 0\<rparr>)"

definition initialState :: "State option" where
  "initialState =
     (let rollingRNG = lazyRNG SEED in do {
        fl \<leftarrow> makeEmptyFloor;
        act \<leftarrow> getTetromino (LazyRNG_value rollingRNG);
        nxt \<leftarrow> getNextTetromino rollingRNG;
        hl \<leftarrow> drop_js act fl;
        Some \<lparr>gameEnd = False, score = 0, highScore = 0, level = 1, floor_js = fl,
              active = act, next = nxt, rng = rollingRNG, cleared = 0, highlight = hl,
              lockDelayCount = 0, hold = None, swapped = False, isPaused = False,
              gravityOffset = 0, framesInCurrentRow = 0, opponentConnected = False,
              recentClear = 0\<rparr>
      })"

subsection \<open>The events\<close>

definition Move_consume :: "Pos \<Rightarrow> State \<Rightarrow> State option" where
  "Move_consume displacement s = do {
     v \<leftarrow> validPos (moveBy (active s) displacement) (floor_js s);
     if v then updateHighlight (s\<lparr>active := moveBy (active s) displacement\<rparr>)
     else Some s
   }"

text \<open>
  In \<open>Tick\<close>, an index outside the table reads \<open>undefined\<close>, and a comparison with
  \<open>undefined\<close> is false.
\<close>

definition Tick_consume :: "State \<Rightarrow> State option" where
  "Tick_consume s =
     (let newState = s\<lparr>framesInCurrentRow := 1 + framesInCurrentRow s\<rparr>
      in if (case index GRAVITY (min (level s - 1 + gravityOffset s) (int (length GRAVITY) - 1)) of
               None \<Rightarrow> False
             | Some g \<Rightarrow> framesInCurrentRow newState \<ge> g)
         then Move_consume (Pos 0 1) (newState\<lparr>framesInCurrentRow := 0\<rparr>)
         else Some newState)"

definition Down_consume :: "bool \<Rightarrow> State \<Rightarrow> State option" where
  "Down_consume increasing s =
     (if increasing then Some (s\<lparr>gravityOffset := gravityOffset s + 1\<rparr>)
      else resetGravity s)"

definition Rotate_consume :: "int \<Rightarrow> State \<Rightarrow> State option" where
  "Rotate_consume direction s = do {
     rotated \<leftarrow> (if direction > 0 then rotateRight (active s) (floor_js s)
                else rotateLeft (active s) (floor_js s));
     updateHighlight (s\<lparr>active := rotated\<rparr>)
   }"

definition LockDelay_merge :: "Tetromino \<Rightarrow> Floor \<Rightarrow> Floor option" where
  "LockDelay_merge act f =
     those (map (\<lambda>(row, rowIndex).
       those (map (\<lambda>(c, colIndex).
         let y = int rowIndex - pos_y (pos act);
             x = int colIndex - pos_x (pos act)
         in do {
           inActive \<leftarrow> withinBound (shape act) x y;
           Some (if (if inActive then truthy (cell_at (shape act ! nat y) (nat x)) else False)
                 then Colour (colour act) else c)
         }) (enumerate_from0 row))) (enumerate_from0 f))"

definition LockDelay_clear :: "Floor \<Rightarrow> (int \<times> Floor) option" where
  "LockDelay_clear f =
     (let remaining = filter (\<lambda>row. \<not> list_all truthy row) f;
          clearedRows = int (length f) - int (length remaining)
      in do {
        fresh \<leftarrow> makeFloor clearedRows None;
        Some (clearedRows, fresh @ remaining)
      })"

definition LockDelay_activate :: "State \<Rightarrow> State option" where
  "LockDelay_activate s = do {
     merged \<leftarrow> LockDelay_merge (active s) (floor_js s);
     (rowsCleared, newFloor) \<leftarrow> LockDelay_clear merged;
     let newScore = score s + 100 * rowsCleared ^ 2;
         newLevel = 1 + (cleared s + rowsCleared) div LEVEL_CUTOFF
     in do {
       newState \<leftarrow> pipe (s\<lparr>floor_js := newFloor, score := newScore,
                            cleared := cleared s + rowsCleared, level := newLevel,
                            swapped := False, highScore := max (highScore s) newScore,
                            recentClear := rowsCleared\<rparr>)
                     [resetGravity, resetLock, rolloverRng, updateHighlight];
       ended \<leftarrow> gameEnd_floor merged;
       Some (if ended then newState\<lparr>gameEnd := True, next := next s\<rparr> else newState)
     }
   }"

definition LockDelay_consume :: "State \<Rightarrow> State option" where
  "LockDelay_consume s = do {
     canMoveDown \<leftarrow> validPos (moveBy (active s) (Pos 0 1)) (floor_js s);
     let newState = (if canMoveDown then s
                     else s\<lparr>lockDelayCount := lockDelayCount s + FRAME_MS\<rparr>)
     in if lockDelayCount newState \<ge> LOCK_DELAY \<and> \<not> canMoveDown
        then LockDelay_activate newState
        else Some newState
   }"

definition Hold_consume :: "State \<Rightarrow> State option" where
  "Hold_consume s =
     (if swapped s then Some s
      else do {
        h \<leftarrow> getTetromino (LazyRNG_value (rng s));
        let swappedState = s\<lparr>hold := Some h, swapped := True\<rparr>
        in case hold s of
             Some held \<Rightarrow>
               pipe (swappedState\<lparr>active := held\<rparr>)
                 [resetGravity, resetLock, updateHighlight]
           | None \<Rightarrow>
               pipe swappedState [resetGravity, resetLock, rolloverRng, updateHighlight]
      })"

definition Pause_consume :: "bool \<Rightarrow> State \<Rightarrow> State option" where
  "Pause_consume pause s = Some (s\<lparr>isPaused := pause\<rparr>)"

definition Connect_consume :: "bool \<Rightarrow> State \<Rightarrow> State option" where
  "Connect_consume conn s = Some (s\<lparr>opponentConnected := conn\<rparr>)"

definition Drop_consume :: "State \<Rightarrow> State option" where
  "Drop_consume s = do {
     dropped \<leftarrow> drop_js (active s) (floor_js s);
     LockDelay_activate (s\<lparr>active := dropped\<rparr>)
   }"

text \<open>The constants \<open>numRowsToDelete\<close>, \<open>removed\<close>, \<open>holeIndex\<close> and \<open>garbage\<close> of \<open>GarbageOut.consume\<close>.\<close>

definition numRowsToDelete :: "int \<Rightarrow> int" where
  "numRowsToDelete columns =
     (if columns = 1 then 0 else if columns = 2 then 1 else if columns = 3 then 2 else columns)"

definition GarbageOut_removed :: "int \<Rightarrow> State \<Rightarrow> Floor" where
  "GarbageOut_removed columns s = slice (floor_js s) 0 (numRowsToDelete columns)"

definition holeIndex :: "State \<Rightarrow> int" where
  "holeIndex s = js_rem (LazyRNG_value (rng s)) GRID_WIDTH"

definition GarbageOut_garbage :: "int \<Rightarrow> State \<Rightarrow> Floor option" where
  "GarbageOut_garbage columns s =
     map_option
       (map (\<lambda>row. slice row 0 (holeIndex s) @ [Num 0] @ slice_from row (holeIndex s + 1)))
       (makeFloor (numRowsToDelete columns) (Some Brown))"

definition GarbageOut_consume :: "int \<Rightarrow> State \<Rightarrow> State option" where
  "GarbageOut_consume columns s =
     (let removed = GarbageOut_removed columns s in do {
        garbage \<leftarrow> GarbageOut_garbage columns s;
        let newFloor = slice_from (floor_js s) (numRowsToDelete columns) @ garbage in do {
          act \<leftarrow> getTetromino (LazyRNG_value (rng s));
          newState \<leftarrow> pipe (s\<lparr>floor_js := newFloor, active := act\<rparr>)
                        [resetGravity, resetLock, updateHighlight];
          ended \<leftarrow> gameEnd_floor newFloor;
          Some (if ended \<or> list_ex truthy (concat removed)
                then newState\<lparr>gameEnd := True\<rparr> else newState)
        }
      })"

definition Restart_consume :: "State \<Rightarrow> State option" where
  "Restart_consume s = do {
     fl \<leftarrow> makeEmptyFloor;
     pipe (s\<lparr>gameEnd := False, score := 0, level := 1, floor_js := fl, cleared := 0,
             swapped := False, isPaused := False, framesInCurrentRow := 0,
             recentClear := 0, hold := None\<rparr>)
       [resetGravity, resetLock, rolloverRng, updateHighlight]
   }"

fun consume :: "GameEvent \<Rightarrow> State \<Rightarrow> State option" where
  "consume Tick s = Tick_consume s"
| "consume (Rotate direction) s = Rotate_consume direction s"
| "consume (Move displacement) s = Move_consume displacement s"
| "consume Drop s = Drop_consume s"
| "consume LockDelay s = LockDelay_consume s"
| "consume Hold s = Hold_consume s"
| "consume Restart s = Restart_consume s"
| "consume (Pause pause) s = Pause_consume pause s"
| "consume (Down increasing) s = Down_consume increasing s"
| "consume (Connect conn) s = Connect_consume conn s"
| "consume (GarbageOut columns) s = GarbageOut_consume columns s"

text \<open>\<open>e instanceof Restart || e instanceof Pause || e instanceof Connect\<close>\<close>

fun isRestartPauseConnect :: "GameEvent \<Rightarrow> bool" where
  "isRestartPauseConnect Restart = True"
| "isRestartPauseConnect (Pause _) = True"
| "isRestartPauseConnect (Connect _) = True"
| "isRestartPauseConnect _ = False"

definition reduceState :: "State \<Rightarrow> GameEvent \<Rightarrow> State option" where
  "reduceState s e =
     (if gameEnd s \<or> isPaused s then
        (if isRestartPauseConnect e then consume e s else Some s)
      else consume e s)"

section \<open>Concrete inputs\<close>

text \<open>
  The empty 20 by 10 floor, the first piece of the sequence at its spawn position, and the
  state the module starts in (\<open>initialState_value\<close>, the value of \<open>initialState\<close>).
\<close>

definition emptyFloor :: Floor where
  "emptyFloor = replicate 20 (replicate 10 (Num 0))"

definition spawnT :: Tetromino where
  "spawnT = \<lparr>shape = TBlock, colour = Purple, pos = Pos 3 (- 2), rotationState = 0\<rparr>"

definition initialState_value :: State where
  "initialState_value =
     \<lparr>gameEnd = False, score = 0, highScore = 0, level = 1, floor_js = emptyFloor,
      active = spawnT,
      next = \<lparr>shape = LBlock, colour = Orange, pos = Pos 3 (- 2), rotationState = 0\<rparr>,
      rng = LazyRNG 20, cleared = 0,
      highlight = \<lparr>shape = TBlock, colour = Purple, pos = Pos 3 18, rotationState = 0\<rparr>,
      lockDelayCount = 0, hold = None, swapped = False, isPaused = False,
      gravityOffset = 0, framesInCurrentRow = 0, opponentConnected = False,
      recentClear = 0\<rparr>"

definition almostFullFloor :: Floor where
  "almostFullFloor = replicate 19 (replicate 10 (Num 0)) @
     [[Colour Grey, Colour Grey, Colour Grey, Num 0, Num 0, Num 0,
       Colour Grey, Colour Grey, Colour Grey, Colour Grey]]"

definition narrowFloor :: Floor where
  "narrowFloor = [[Num 0, Num 0, Num 0, Num 0]]"

definition flatI :: Tetromino where
  "flatI = \<lparr>shape = IBlock, colour = Cyan, pos = Pos (- 1) (- 2), rotationState = 0\<rparr>"

section \<open>Notions used to state the rotation cycle\<close>

text \<open>
  A matrix is \<open>rect R C\<close> if it has \<open>R\<close> rows of \<open>C\<close> cells each. \<open>rotate_towards\<close> is the
  rotation that \<open>Rotate.consume\<close> applies for a direction. \<open>first_candidate\<close> is the first
  piece that \<open>__rotate\<close> tests: the rotated piece moved by the first offset of \<open>getData\<close>.
\<close>

definition rect :: "nat \<Rightarrow> nat \<Rightarrow> Matrix \<Rightarrow> bool" where
  "rect R C m \<longleftrightarrow> length m = R \<and> (\<forall>row \<in> set m. length row = C)"

definition rotate_towards :: "int \<Rightarrow> Tetromino \<Rightarrow> Floor \<Rightarrow> Tetromino option" where
  "rotate_towards direction this f =
     (if direction > 0 then rotateRight this f else rotateLeft this f)"

definition first_candidate :: "int \<Rightarrow> Tetromino \<Rightarrow> Tetromino option" where
  "first_candidate direction this = do {
     to \<leftarrow> (if direction > 0 then rotateRight_rotated this else rotateLeft_rotated this);
     wallKickData \<leftarrow> getData this to;
     case wallKickData of [] \<Rightarrow> None | p # _ \<Rightarrow> Some (moveBy to p)
   }"

definition wallT :: Tetromino where
  "wallT = \<lparr>shape = map (map Num) [[0, 1, 0], [0, 1, 1], [0, 1, 0]], colour = Purple,
            pos = Pos (- 1) 5, rotationState = 1\<rparr>"

definition midI :: Tetromino where
  "midI = \<lparr>shape = IBlock, colour = Cyan, pos = Pos 2 5, rotationState = 0\<rparr>"

definition midI1 :: Tetromino where
  "midI1 = \<lparr>shape = map (map Num)
                [[0, 0, 0, 0, 0],
                 [0, 0, 1, 0, 0],
                 [0, 0, 1, 0, 0],
                 [0, 0, 1, 0, 0],
                 [0, 0, 1, 0, 0]],
             colour = Cyan, pos = Pos 3 5, rotationState = 1\<rparr>"

definition midI2 :: Tetromino where
  "midI2 = \<lparr>shape = map (map Num)
                [[0, 0, 0, 0, 0],
                 [0, 0, 0, 0, 0],
                 [1, 1, 1, 1, 0],
                 [0, 0, 0, 0, 0],
                 [0, 0, 0, 0, 0]],
             colour = Cyan, pos = Pos 3 6, rotationState = 2\<rparr>"

definition midI3 :: Tetromino where
  "midI3 = \<lparr>shape = map (map Num)
                [[0, 0, 1, 0, 0],
                 [0, 0, 1, 0, 0],
                 [0, 0, 1, 0, 0],
                 [0, 0, 1, 0, 0],
                 [0, 0, 0, 0, 0]],
             colour = Cyan, pos = Pos 2 6, rotationState = 3\<rparr>"

section \<open>Reachable states\<close>

text \<open>
  The states the game can be in: the initial state, and every state that \<open>reduceState\<close>
  returns on a reachable state and an event.
\<close>

inductive reachable :: "State \<Rightarrow> bool" where
  initial: "initialState = Some s \<Longrightarrow> reachable s"
| step: "reachable s \<Longrightarrow> reduceState s e = Some s' \<Longrightarrow> reachable s'"

section \<open>Basic facts\<close>

lemma pureReverse_acc: "foldl (\<lambda>a e. e # a) acc xs = rev xs @ acc"
  by (induction xs arbitrary: acc) auto

lemma pureReverse_rev: "pureReverse xs = rev xs"
  by (simp add: pureReverse_def pureReverse_acc)

lemma those_map_Some: "those (map (\<lambda>x. Some (g x)) xs) = Some (map g xs)"
  by (induction xs) auto

lemma those_eq_Some:
  "those xs = Some ys \<longleftrightarrow> xs = map Some ys"
proof (induction xs arbitrary: ys)
  case Nil
  then show ?case by auto
next
  case (Cons x xs)
  then show ?case by (cases x) (auto simp: map_eq_Cons_conv)
qed

lemma those_neq_None: "(\<forall>x \<in> set xs. x \<noteq> None) \<Longrightarrow> those xs \<noteq> None"
  by (induction xs) (auto split: option.splits)

lemma those_replicate: "those (replicate n (Some x)) = Some (replicate n x)"
  by (induction n) auto

lemma range_js_Some: "0 \<le> n \<Longrightarrow> n \<le> 4294967295 \<Longrightarrow> range_js n = Some (map int [0..<nat n])"
  by (simp add: range_js_def)

lemma makeFloor_eq:
  "makeFloor h c =
     (if h < 0 \<or> 4294967295 < h then None
      else Some (replicate (nat h)
                   (replicate 10 (case c of Some k \<Rightarrow> Colour k | None \<Rightarrow> Num 0))))"
proof -
  have row: "map_option (map (\<lambda>_. case c of Some k \<Rightarrow> Colour k | None \<Rightarrow> Num 0)) (range_js GRID_WIDTH)
               = Some (replicate 10 (case c of Some k \<Rightarrow> Colour k | None \<Rightarrow> Num 0))"
    by (simp add: range_js_def GRID_WIDTH_def map_replicate_const)
  show ?thesis
    unfolding makeFloor_def row
    by (simp add: map_replicate_const range_js_def those_replicate)
qed

lemma some_opt_neq_None: "(\<forall>x \<in> set xs. p x \<noteq> None) \<Longrightarrow> some_opt p xs \<noteq> None"
  by (induction xs) (auto split: option.splits bool.splits)

lemma shape_moveBy [simp]: "shape (moveBy t d) = shape t"
  and colour_moveBy [simp]: "colour (moveBy t d) = colour t"
  and rotationState_moveBy [simp]: "rotationState (moveBy t d) = rotationState t"
  and pos_moveBy [simp]: "pos (moveBy t d) = add (pos t) d"
  by (simp_all add: moveBy_def)

lemma withinBound_neq_None: "m \<noteq> [] \<Longrightarrow> withinBound m x y \<noteq> None"
  by (cases m) (auto simp: withinBound_def)

lemma overlaps_neq_None:
  assumes "f \<noteq> []"
  shows "overlaps t f \<noteq> None"
proof -
  have inner: "some_opt (\<lambda>(c, x).
         let relY = pos_y (pos t) + int y;
             relX = pos_x (pos t) + int x
         in do {
           inFloor \<leftarrow> withinBound f relX relY;
           Some (if inFloor then truthy (cell_at (f ! nat relY) (nat relX)) \<and> truthy c
                 else False)
         }) xs \<noteq> None" for y and xs :: "(cell \<times> nat) list"
  proof (intro some_opt_neq_None ballI)
    fix p :: "cell \<times> nat"
    obtain b where "withinBound f (pos_x (pos t) + int (snd p)) (pos_y (pos t) + int y) = Some b"
      using withinBound_neq_None [OF assms] by blast
    then show "(case p of (c, x) \<Rightarrow>
         let relY = pos_y (pos t) + int y;
             relX = pos_x (pos t) + int x
         in do {
           inFloor \<leftarrow> withinBound f relX relY;
           Some (if inFloor then truthy (cell_at (f ! nat relY) (nat relX)) \<and> truthy c
                 else False)
         }) \<noteq> None"
      by (cases p) (simp add: Let_def)
  qed
  show ?thesis
    unfolding overlaps_def
    by (intro some_opt_neq_None ballI) (use inner in \<open>auto split: prod.splits\<close>)
qed

lemma transposeMatrix_neq_None: "m \<noteq> [] \<Longrightarrow> transposeMatrix m \<noteq> None"
  by (cases m) (simp_all add: transposeMatrix_def)

lemma validPos_neq_None: "shape t \<noteq> [] \<Longrightarrow> f \<noteq> [] \<Longrightarrow> validPos t f \<noteq> None"
  using overlaps_neq_None [of f t] transposeMatrix_neq_None [of "shape t"]
  by (cases f; cases "shape t")
     (auto simp: validPos_def firstFilledCol_def lastFilledCol_def Option.bind_eq_None_conv)

lemma validPos_bottom:
  "validPos t f = Some True \<Longrightarrow> pos_y (pos t) + lastFilledRow (shape t) + 1 \<le> int (length f)"
  by (cases f) (auto simp: validPos_def Option.bind_eq_Some_conv split: if_splits)

lemma drop_js_total: "shape t \<noteq> [] \<Longrightarrow> f \<noteq> [] \<Longrightarrow> \<exists>r. drop_js t f = Some r"
proof (induction t f rule: drop_js.induct)
  case (1 this f)
  from validPos_neq_None [of "moveBy this (Pos 0 1)" f] 1(2,3)
  obtain v where v: "validPos (moveBy this (Pos 0 1)) f = Some v"
    by auto
  show ?case
  proof (cases v)
    case True
    with 1 v show ?thesis
      by (subst drop_js.simps) simp
  next
    case False
    with v show ?thesis
      by (subst drop_js.simps) simp
  qed
qed

lemma drop_js_result:
  "drop_js t f = Some r \<Longrightarrow>
     shape r = shape t \<and> colour r = colour t \<and> rotationState r = rotationState t
     \<and> pos_x (pos r) = pos_x (pos t) \<and> pos_y (pos t) \<le> pos_y (pos r)
     \<and> validPos (moveBy r (Pos 0 1)) f = Some False
     \<and> (r = t \<or> validPos r f = Some True)"
proof (induction t f rule: drop_js.induct)
  case (1 this f)
  from 1(2) obtain v where v: "validPos (moveBy this (Pos 0 1)) f = Some v"
    by (subst (asm) drop_js.simps) (auto split: option.splits)
  show ?case
  proof (cases v)
    case True
    with 1(2) v have "drop_js (moveBy this (Pos 0 1)) f = Some r"
      by (subst (asm) drop_js.simps) simp
    from 1(1) [OF v _ this] True v show ?thesis
      by (auto simp: add_def)
  next
    case False
    with 1(2) v have "r = this"
      by (subst (asm) drop_js.simps) simp
    with v False show ?thesis by simp
  qed
qed

lemma foldl_bind_None: "foldl (\<lambda>acc fn. Option.bind acc fn) None fs = None"
  by (induction fs) simp_all

lemma pipe_Nil [simp]: "pipe x [] = Some x"
  by (simp add: pipe_def)

lemma pipe_Cons [simp]: "pipe x (f # fs) = Option.bind (f x) (\<lambda>y. pipe y fs)"
  by (cases "f x") (simp_all add: pipe_def foldl_bind_None)

lemma updateHighlight_SomeD:
  "updateHighlight s = Some s' \<Longrightarrow> \<exists>h. s' = s\<lparr>highlight := h\<rparr>"
  by (auto simp: updateHighlight_def)

lemma rolloverRng_SomeD:
  "rolloverRng s = Some s' \<Longrightarrow> \<exists>r n a. s' = s\<lparr>rng := r, next := n, active := a\<rparr>"
  by (auto simp: rolloverRng_def Let_def Option.bind_eq_Some_conv)

lemma round_double_nonneg: "0 \<le> n \<Longrightarrow> 0 \<le> round_double n"
  by (simp add: round_double_def Let_def pos_imp_zdiv_nonneg_iff)

lemma hash_nonneg: "0 \<le> x \<Longrightarrow> 0 \<le> hash x"
proof -
  assume "0 \<le> x"
  then have "0 \<le> round_double (round_double (1103515245 * x) + 12345)"
    by (intro round_double_nonneg add_nonneg_nonneg) simp_all
  then show ?thesis
    by (simp add: hash_def js_rem_def)
qed

lemma bestPosition_neq_None: "sh \<noteq> [] \<Longrightarrow> bestPosition step d sh \<noteq> None"
  using transposeMatrix_neq_None [of sh]
  by (cases sh) (auto simp: bestPosition_def firstFilledCol_def lastFilledCol_def
      Option.bind_eq_None_conv)

lemma TETROMINOES_nonempty: "p \<in> set TETROMINOES \<Longrightarrow> fst p \<noteq> []"
  by (auto simp: TETROMINOES_def IBlock_def JBlock_def LBlock_def OBlock_def SBlock_def
      TBlock_def ZBlock_def)

lemma getTetromino_total:
  assumes "0 \<le> h"
  shows "\<exists>t. getTetromino h = Some t \<and> shape t \<noteq> []"
proof -
  have len: "length TETROMINOES = 7"
    by (simp add: TETROMINOES_def)
  from assms have bounds: "0 \<le> js_rem h 7" "js_rem h 7 < 7"
    by (simp_all add: js_rem_def)
  then have idx: "index TETROMINOES (js_rem h 7) = Some (TETROMINOES ! nat (js_rem h 7))"
    by (simp add: index_def len)
  from bounds have "TETROMINOES ! nat (js_rem h 7) \<in> set TETROMINOES"
    by (intro nth_mem) (simp add: len)
  then have ne: "fst (TETROMINOES ! nat (js_rem h 7)) \<noteq> []"
    by (rule TETROMINOES_nonempty)
  then obtain cx where "centerXPosition (fst (TETROMINOES ! nat (js_rem h 7))) = Some cx"
    using bestPosition_neq_None [OF ne] by (auto simp: centerXPosition_def)
  with idx ne show ?thesis
    by (simp add: getTetromino_def len)
qed

lemma makeEmptyFloor_eq: "makeEmptyFloor = Some (replicate 20 (replicate 10 (Num 0)))"
  by (simp add: makeEmptyFloor_def makeFloor_eq GRID_HEIGHT_def)

lemma rolloverRng_total:
  assumes "0 \<le> seed_of (rng s)"
  shows "\<exists>r n a. rolloverRng s = Some (s\<lparr>rng := r, next := n, active := a\<rparr>) \<and> shape a \<noteq> []
           \<and> 0 \<le> seed_of r"
proof -
  let ?r = "LazyRNG_next (rng s)"
  have r: "0 \<le> seed_of ?r"
    using assms by (simp add: LazyRNG_next_def hash_nonneg)
  obtain n where n: "getNextTetromino ?r = Some n"
    using getTetromino_total [of "LazyRNG_value (LazyRNG_next ?r)"] r
    by (auto simp: getNextTetromino_def LazyRNG_value_def LazyRNG_next_def hash_nonneg)
  obtain a where a: "getTetromino (LazyRNG_value ?r) = Some a" "shape a \<noteq> []"
    using getTetromino_total [of "LazyRNG_value ?r"] r
    by (auto simp: LazyRNG_value_def hash_nonneg)
  from n a r show ?thesis
    by (auto simp: rolloverRng_def Let_def)
qed

lemma updateHighlight_total:
  "shape (active s) \<noteq> [] \<Longrightarrow> floor_js s \<noteq> [] \<Longrightarrow>
     \<exists>h. updateHighlight s = Some (s\<lparr>highlight := h\<rparr>)"
  using drop_js_total [of "active s" "floor_js s"] by (auto simp: updateHighlight_def)

lemma Restart_consume_total:
  assumes "0 \<le> seed_of (rng s)"
  shows "\<exists>s'. Restart_consume s = Some s' \<and> \<not> isPaused s' \<and> \<not> gameEnd s'"
proof -
  let ?s1 = "s\<lparr>gameEnd := False, score := 0, level := 1,
                floor_js := replicate 20 (replicate 10 (Num 0)), cleared := 0,
                swapped := False, isPaused := False, framesInCurrentRow := 0,
                recentClear := 0, hold := None, gravityOffset := 0, lockDelayCount := 0\<rparr>"
  from rolloverRng_total [of ?s1] assms obtain r n a
    where roll: "rolloverRng ?s1 = Some (?s1\<lparr>rng := r, next := n, active := a\<rparr>)"
      and a: "shape a \<noteq> []"
    by auto
  from updateHighlight_total [of "?s1\<lparr>rng := r, next := n, active := a\<rparr>"] a obtain h
    where "updateHighlight (?s1\<lparr>rng := r, next := n, active := a\<rparr>)
             = Some (?s1\<lparr>rng := r, next := n, active := a, highlight := h\<rparr>)"
    by auto
  with roll show ?thesis
    by (simp add: Restart_consume_def makeEmptyFloor_eq resetGravity_def resetLock_def)
qed

lemma Restart_consume_flags:
  assumes "Restart_consume s = Some s'"
  shows "\<not> isPaused s' \<and> \<not> gameEnd s' \<and> score s' = 0 \<and> highScore s' = highScore s
         \<and> floor_js s' = replicate 20 (replicate 10 (Num 0))"
proof -
  from assms obtain s1 s2 where "rolloverRng s1 = Some s2" "updateHighlight s2 = Some s'"
    and "\<not> isPaused s1 \<and> \<not> gameEnd s1 \<and> score s1 = 0 \<and> highScore s1 = highScore s
         \<and> floor_js s1 = replicate 20 (replicate 10 (Num 0))"
    by (auto simp: Restart_consume_def makeEmptyFloor_eq resetGravity_def resetLock_def
        Option.bind_eq_Some_conv)
  then show ?thesis
    by (auto dest!: rolloverRng_SomeD updateHighlight_SomeD)
qed

lemma Hold_consume_fields:
  assumes "Hold_consume s = Some s'"
  shows "swapped s' \<and> gameEnd s' = gameEnd s \<and> isPaused s' = isPaused s
         \<and> score s' = score s \<and> highScore s' = highScore s \<and> floor_js s' = floor_js s"
proof (cases "swapped s")
  case True
  with assms show ?thesis by (simp add: Hold_consume_def)
next
  case False
  with assms obtain h where h: "getTetromino (LazyRNG_value (rng s)) = Some h"
    by (auto simp: Hold_consume_def Option.bind_eq_Some_conv)
  show ?thesis
  proof (cases "hold s")
    case None
    with assms False h obtain s2
      where "rolloverRng (s\<lparr>hold := Some h, swapped := True, gravityOffset := 0,
                               lockDelayCount := 0\<rparr>) = Some s2"
        and "updateHighlight s2 = Some s'"
      by (auto simp: Hold_consume_def resetGravity_def resetLock_def Option.bind_eq_Some_conv)
    then show ?thesis
      by (auto dest!: rolloverRng_SomeD updateHighlight_SomeD)
  next
    case (Some held)
    with assms False h
    have "updateHighlight (s\<lparr>hold := Some h, swapped := True, active := held,
                               gravityOffset := 0, lockDelayCount := 0\<rparr>) = Some s'"
      by (simp add: Hold_consume_def resetGravity_def resetLock_def)
    then show ?thesis
      by (auto dest!: updateHighlight_SomeD)
  qed
qed

lemma Hold_consume_swapped:
  "Hold_consume s = Some s' \<Longrightarrow> swapped s'"
  by (simp add: Hold_consume_fields)

lemma Hold_consume_flags:
  "Hold_consume s = Some s' \<Longrightarrow> gameEnd s' = gameEnd s \<and> isPaused s' = isPaused s"
  by (simp add: Hold_consume_fields)

lemma initialState_eq: "initialState = Some initialState_value"
  by code_simp

section \<open>The reducer gates events while paused or ended\<close>

text \<open>
  Claim C1. In a state whose paused flag or game-over flag is set, \<open>reduceState\<close> applies
  the event only if it is a Restart, a Pause or a Connect, and returns the state unchanged
  otherwise; so a Move leaves such a state unchanged. A Restart is applied: the result is
  that of \<open>Restart.consume\<close>, whose paused flag is clear, and which exists whenever the
  seed held by the sequence is not negative.
\<close>

theorem reduceState_paused_or_ended:
  assumes "gameEnd s \<or> isPaused s"
  shows "reduceState s e =
           (if e = Restart \<or> (\<exists>p. e = Pause p) \<or> (\<exists>c. e = Connect c) then consume e s
            else Some s)
         \<and> reduceState s (Move d) = Some s
         \<and> reduceState s Restart = Restart_consume s
         \<and> (\<forall>s'. reduceState s Restart = Some s' \<longrightarrow> \<not> isPaused s')
         \<and> (0 \<le> seed_of (rng s) \<longrightarrow> (\<exists>s'. reduceState s Restart = Some s'))"
proof (intro conjI impI allI)
  show "reduceState s e =
          (if e = Restart \<or> (\<exists>p. e = Pause p) \<or> (\<exists>c. e = Connect c) then consume e s
           else Some s)"
    using assms by (cases e) (simp_all add: reduceState_def)
  show "reduceState s (Move d) = Some s"
    using assms by (simp add: reduceState_def)
  show restart: "reduceState s Restart = Restart_consume s"
    by (simp add: reduceState_def)
  show "\<not> isPaused s'" if "reduceState s Restart = Some s'" for s'
    using that Restart_consume_flags [of s s'] by (simp add: restart)
  show "\<exists>s'. reduceState s Restart = Some s'" if "0 \<le> seed_of (rng s)"
    using Restart_consume_total [OF that] by (auto simp: restart)
qed

theorem reduceState_paused_or_ended_witness:
  "isPaused (initialState_value\<lparr>isPaused := True\<rparr>)
   \<and> reduceState (initialState_value\<lparr>isPaused := True\<rparr>) (Move (Pos 1 0))
       = Some (initialState_value\<lparr>isPaused := True\<rparr>)
   \<and> (\<exists>s'. reduceState (initialState_value\<lparr>isPaused := True\<rparr>) Restart = Some s'
            \<and> \<not> isPaused s')"
proof -
  have paused: "gameEnd (initialState_value\<lparr>isPaused := True\<rparr>)
                  \<or> isPaused (initialState_value\<lparr>isPaused := True\<rparr>)"
    by simp
  have seed: "0 \<le> seed_of (rng (initialState_value\<lparr>isPaused := True\<rparr>))"
    by (simp add: initialState_value_def)
  note gated = reduceState_paused_or_ended [OF paused, of "Move (Pos 1 0)" "Pos 1 0"]
  from gated seed obtain s'
    where s': "reduceState (initialState_value\<lparr>isPaused := True\<rparr>) Restart = Some s'"
    by blast
  with gated have unpaused: "\<not> isPaused s'"
    by blast
  have "isPaused (initialState_value\<lparr>isPaused := True\<rparr>)"
    by simp
  with gated s' unpaused show ?thesis
    by blast
qed

section \<open>Hold\<close>

text \<open>
  Claim C8. Hold is idempotent: applying it twice (with nothing in between) gives what
  applying it once gives, through \<open>Hold.consume\<close> and through \<open>reduceState\<close> alike. The
  reason is that a state returned by Hold has its swap-used flag set, and that Hold
  returns a state whose swap-used flag is set as it is.
\<close>

theorem Hold_idempotent:
  "Option.bind (Hold_consume s) Hold_consume = Hold_consume s
   \<and> Option.bind (reduceState s Hold) (\<lambda>s'. reduceState s' Hold) = reduceState s Hold
   \<and> (\<forall>s'. Hold_consume s = Some s' \<longrightarrow> swapped s')
   \<and> (swapped s \<longrightarrow> Hold_consume s = Some s)"
proof (intro conjI allI impI)
  show once: "Option.bind (Hold_consume s) Hold_consume = Hold_consume s"
  proof (cases "Hold_consume s")
    case None
    then show ?thesis by simp
  next
    case (Some s')
    then have "swapped s'" by (rule Hold_consume_swapped)
    then have "Hold_consume s' = Some s'" by (simp add: Hold_consume_def)
    with Some show ?thesis by simp
  qed
  show "Option.bind (reduceState s Hold) (\<lambda>s'. reduceState s' Hold) = reduceState s Hold"
  proof (cases "gameEnd s \<or> isPaused s")
    case True
    then show ?thesis by (simp add: reduceState_def)
  next
    case False
    show ?thesis
    proof (cases "Hold_consume s")
      case None
      with False show ?thesis by (simp add: reduceState_def)
    next
      case (Some s')
      with Hold_consume_flags [OF Some] False once show ?thesis
        by (simp add: reduceState_def)
    qed
  qed
next
  fix s' assume "Hold_consume s = Some s'"
  then show "swapped s'" by (rule Hold_consume_swapped)
next
  assume "swapped s"
  then show "Hold_consume s = Some s" by (simp add: Hold_consume_def)
qed

lemma Hold_consume_initial: "Hold_consume initialState_value \<noteq> None"
  by code_simp

theorem Hold_idempotent_witness:
  "\<exists>s'. Hold_consume initialState_value = Some s' \<and> swapped s'
         \<and> \<not> swapped initialState_value
         \<and> Option.bind (Hold_consume initialState_value) Hold_consume = Some s'
         \<and> Hold_consume s' = Some s'"
proof -
  from Hold_consume_initial obtain s' where s': "Hold_consume initialState_value = Some s'"
    by auto
  from Hold_idempotent [of initialState_value] Hold_idempotent [of s'] s' show ?thesis
    by (simp add: initialState_value_def)
qed

section \<open>Hard drop\<close>

text \<open>
  Claim C6. \<open>drop\<close> terminates: it is a total function (the recursion is bounded by the
  height of the floor, see the termination proof), and on a piece with a shape and a floor
  with a row it returns a piece. The result has the x coordinate of the piece, a row index
  not smaller than that of the piece, and is not valid one row further down. If it has
  moved at all, its last filled row lies within the height of the floor.
\<close>

theorem drop_js_terminates_at_rest:
  assumes "shape P \<noteq> []" and "B \<noteq> []"
  shows "\<exists>r. drop_js P B = Some r
             \<and> pos_x (pos r) = pos_x (pos P) \<and> pos_y (pos P) \<le> pos_y (pos r)
             \<and> shape r = shape P
             \<and> validPos (moveBy r (Pos 0 1)) B = Some False
             \<and> (r = P \<or> pos_y (pos r) + lastFilledRow (shape P) + 1 \<le> int (length B))"
proof -
  from drop_js_total [OF assms] obtain r where r: "drop_js P B = Some r" ..
  from drop_js_result [OF r]
  have same: "shape r = shape P" and rest: "r = P \<or> validPos r B = Some True"
    by simp_all
  from rest same validPos_bottom [of r B]
  have "r = P \<or> pos_y (pos r) + lastFilledRow (shape P) + 1 \<le> int (length B)"
    by auto
  with drop_js_result [OF r] r show ?thesis by simp
qed

theorem drop_js_terminates_at_rest_witness:
  "shape spawnT \<noteq> [] \<and> emptyFloor \<noteq> []
   \<and> (\<exists>r. drop_js spawnT emptyFloor = Some r
          \<and> pos_x (pos r) = 3 \<and> - 2 \<le> pos_y (pos r)
          \<and> validPos (moveBy r (Pos 0 1)) emptyFloor = Some False)"
proof -
  have piece: "shape spawnT \<noteq> []"
    by (simp add: spawnT_def TBlock_def)
  have board: "emptyFloor \<noteq> []"
    by (simp add: emptyFloor_def)
  from drop_js_terminates_at_rest [OF piece board] piece board show ?thesis
    by (auto simp: spawnT_def)
qed

section \<open>Filled rows and columns of a matrix without a truthy cell\<close>

lemma firstFilledRow_none:
  "\<forall>row \<in> set m. \<forall>c \<in> set row. \<not> truthy c \<Longrightarrow> firstFilledRow m = - 1"
  by (auto simp: firstFilledRow_def findIndex_def list_ex_iff filter_empty_conv)

lemma lastFilledRow_none:
  "\<forall>row \<in> set m. \<forall>c \<in> set row. \<not> truthy c \<Longrightarrow> lastFilledRow m = int (length m)"
  by (simp add: lastFilledRow_def pureReverse_rev firstFilledRow_none)

text \<open>
  Claim C9. On the one by one matrix holding 0, which has no truthy cell,
  \<open>firstFilledRow\<close> and \<open>firstFilledCol\<close> return \<open>-1\<close>, but \<open>lastFilledRow\<close> and
  \<open>lastFilledCol\<close> return 1, the number of rows and of columns.
\<close>

theorem lastFilled_without_truthy_cell:
  "firstFilledRow [[Num 0]] = - 1 \<and> firstFilledCol [[Num 0]] = Some (- 1)
   \<and> lastFilledRow [[Num 0]] = 1 \<and> lastFilledCol [[Num 0]] = Some 1"
  by (simp add: firstFilledRow_def firstFilledCol_def lastFilledRow_def lastFilledCol_def
      findIndex_def transposeMatrix_def pureReverse_def cell_at_def)

section \<open>What each event does to the score and to the floor\<close>

lemma those_map_SomeD:
  assumes "those (map g xs) = Some ys"
  shows "length ys = length xs \<and> (\<forall>i<length xs. g (xs ! i) = Some (ys ! i))"
proof -
  from assms have eq: "map g xs = map Some ys"
    by (simp add: those_eq_Some)
  then have len: "length ys = length xs"
    by (metis length_map)
  moreover have "g (xs ! i) = Some (ys ! i)" if "i < length xs" for i
    using eq that len by (metis nth_map)
  ultimately show ?thesis by blast
qed

lemma LockDelay_clear_SomeD:
  assumes "LockDelay_clear f = Some (c, nf)"
  shows "c = int (length (filter (list_all truthy) f))
         \<and> nf = replicate (nat c) (replicate 10 (Num 0)) @ filter (\<lambda>row. \<not> list_all truthy row) f"
proof -
  have "length (filter (list_all truthy) f) + length (filter (\<lambda>row. \<not> list_all truthy row) f)
          = length f"
    by (rule sum_length_filter_compl)
  then have "int (length f) - int (length (filter (\<lambda>row. \<not> list_all truthy row) f))
               = int (length (filter (list_all truthy) f))"
    by linarith
  with assms show ?thesis
    by (auto simp: LockDelay_clear_def Let_def makeFloor_eq Option.bind_eq_Some_conv
        split: if_splits)
qed

lemma LockDelay_activate_SomeD:
  assumes "LockDelay_activate s = Some s'"
  shows "\<exists>merged c nf. LockDelay_merge (active s) (floor_js s) = Some merged
           \<and> LockDelay_clear merged = Some (c, nf)
           \<and> score s' = score s + 100 * c ^ 2
           \<and> cleared s' = cleared s + c
           \<and> level s' = 1 + (cleared s + c) div LEVEL_CUTOFF
           \<and> highScore s' = max (highScore s) (score s + 100 * c ^ 2)
           \<and> recentClear s' = c
           \<and> floor_js s' = nf"
proof -
  from assms obtain merged c nf s1 ended
    where merged: "LockDelay_merge (active s) (floor_js s) = Some merged"
      and clear: "LockDelay_clear merged = Some (c, nf)"
      and s1: "pipe (s\<lparr>floor_js := nf, score := score s + 100 * c ^ 2,
                       cleared := cleared s + c,
                       level := 1 + (cleared s + c) div LEVEL_CUTOFF,
                       swapped := False,
                       highScore := max (highScore s) (score s + 100 * c ^ 2),
                       recentClear := c\<rparr>)
                 [resetGravity, resetLock, rolloverRng, updateHighlight] = Some s1"
      and s': "s' = (if ended then s1\<lparr>gameEnd := True, next := next s\<rparr> else s1)"
    by (auto simp: LockDelay_activate_def Option.bind_eq_Some_conv Let_def split: prod.splits)
  from s1 obtain s2
    where "rolloverRng (s\<lparr>floor_js := nf, score := score s + 100 * c ^ 2,
                       cleared := cleared s + c,
                       level := 1 + (cleared s + c) div LEVEL_CUTOFF,
                       swapped := False,
                       highScore := max (highScore s) (score s + 100 * c ^ 2),
                       recentClear := c, gravityOffset := 0, lockDelayCount := 0\<rparr>) = Some s2"
      and "updateHighlight s2 = Some s1"
    by (auto simp: resetGravity_def resetLock_def Option.bind_eq_Some_conv)
  then have "score s1 = score s + 100 * c ^ 2 \<and> cleared s1 = cleared s + c
             \<and> level s1 = 1 + (cleared s + c) div LEVEL_CUTOFF
             \<and> highScore s1 = max (highScore s) (score s + 100 * c ^ 2)
             \<and> recentClear s1 = c \<and> floor_js s1 = nf"
    by (auto dest!: rolloverRng_SomeD updateHighlight_SomeD)
  with merged clear s' show ?thesis
    by (intro exI [of _ merged] exI [of _ c] exI [of _ nf]) simp
qed

lemma updateHighlight_kept:
  "updateHighlight s = Some s' \<Longrightarrow>
     score s' = score s \<and> highScore s' = highScore s \<and> floor_js s' = floor_js s"
  by (auto dest!: updateHighlight_SomeD)

lemma Move_consume_kept:
  assumes "Move_consume d s = Some s'"
  shows "score s' = score s \<and> highScore s' = highScore s \<and> floor_js s' = floor_js s"
proof -
  from assms obtain v where "validPos (moveBy (active s) d) (floor_js s) = Some v"
    and "(if v then updateHighlight (s\<lparr>active := moveBy (active s) d\<rparr>) else Some s) = Some s'"
    by (auto simp: Move_consume_def Option.bind_eq_Some_conv)
  then show ?thesis
    by (cases v) (auto dest!: updateHighlight_kept)
qed

lemma Tick_consume_kept:
  assumes "Tick_consume s = Some s'"
  shows "score s' = score s \<and> highScore s' = highScore s \<and> floor_js s' = floor_js s"
proof -
  from assms
  have "Move_consume (Pos 0 1) (s\<lparr>framesInCurrentRow := 0\<rparr>) = Some s'
        \<or> s' = s\<lparr>framesInCurrentRow := 1 + framesInCurrentRow s\<rparr>"
    by (auto simp: Tick_consume_def Let_def split: if_splits)
  then show ?thesis
    by (auto dest!: Move_consume_kept)
qed

lemma Rotate_consume_kept:
  assumes "Rotate_consume d s = Some s'"
  shows "score s' = score s \<and> highScore s' = highScore s \<and> floor_js s' = floor_js s"
proof -
  from assms obtain r where "updateHighlight (s\<lparr>active := r\<rparr>) = Some s'"
    by (auto simp: Rotate_consume_def Option.bind_eq_Some_conv)
  then show ?thesis
    by (auto dest!: updateHighlight_kept)
qed

lemma Down_consume_kept:
  "Down_consume b s = Some s' \<Longrightarrow>
     score s' = score s \<and> highScore s' = highScore s \<and> floor_js s' = floor_js s"
  by (auto simp: Down_consume_def resetGravity_def split: if_splits)

lemma GarbageOut_consume_SomeD:
  assumes "GarbageOut_consume n s = Some s'"
  shows "\<exists>g. GarbageOut_garbage n s = Some g
           \<and> floor_js s' = slice_from (floor_js s) (numRowsToDelete n) @ g
           \<and> score s' = score s \<and> highScore s' = highScore s"
proof -
  from assms obtain g act s1 ended
    where g: "GarbageOut_garbage n s = Some g"
      and s1: "updateHighlight
                 (s\<lparr>floor_js := slice_from (floor_js s) (numRowsToDelete n) @ g, active := act,
                     gravityOffset := 0, lockDelayCount := 0\<rparr>) = Some s1"
      and s': "s' = (if ended \<or> list_ex truthy (concat (GarbageOut_removed n s))
                     then s1\<lparr>gameEnd := True\<rparr> else s1)"
    by (auto simp: GarbageOut_consume_def Option.bind_eq_Some_conv Let_def resetGravity_def
        resetLock_def)
  from updateHighlight_kept [OF s1] g s' show ?thesis
    by auto
qed

lemma Drop_consume_SomeD:
  "Drop_consume s = Some s' \<Longrightarrow>
     \<exists>a. drop_js (active s) (floor_js s) = Some a \<and> LockDelay_activate (s\<lparr>active := a\<rparr>) = Some s'"
  by (auto simp: Drop_consume_def Option.bind_eq_Some_conv)

lemma LockDelay_consume_SomeD:
  assumes "LockDelay_consume s = Some s'"
  shows "s' = s \<or> s' = s\<lparr>lockDelayCount := lockDelayCount s + FRAME_MS\<rparr>
         \<or> LockDelay_activate (s\<lparr>lockDelayCount := lockDelayCount s + FRAME_MS\<rparr>) = Some s'"
proof -
  from assms obtain v where "validPos (moveBy (active s) (Pos 0 1)) (floor_js s) = Some v"
    and "(let newState = (if v then s else s\<lparr>lockDelayCount := lockDelayCount s + FRAME_MS\<rparr>)
          in if lockDelayCount newState \<ge> LOCK_DELAY \<and> \<not> v
             then LockDelay_activate newState else Some newState) = Some s'"
    by (auto simp: LockDelay_consume_def Option.bind_eq_Some_conv)
  then show ?thesis
    by (cases v) (auto simp: Let_def split: if_splits)
qed

lemma activate_scores:
  assumes "LockDelay_activate s = Some s'" and "0 \<le> highScore s"
  shows "0 \<le> highScore s' \<and> score s' \<le> highScore s'"
proof -
  from LockDelay_activate_SomeD [OF assms(1)] obtain c
    where "score s' = score s + 100 * c ^ 2"
      and "highScore s' = max (highScore s) (score s + 100 * c ^ 2)"
    by auto
  with assms(2) show ?thesis by simp
qed

lemma consume_scores:
  assumes "consume e s = Some s'" and "0 \<le> highScore s" and "score s \<le> highScore s"
  shows "0 \<le> highScore s' \<and> score s' \<le> highScore s'"
proof (cases e)
  case Tick
  with assms Tick_consume_kept [of s s'] show ?thesis by simp
next
  case (Rotate d)
  with assms Rotate_consume_kept [of d s s'] show ?thesis by simp
next
  case (Move d)
  with assms Move_consume_kept [of d s s'] show ?thesis by simp
next
  case Drop
  with assms(1) obtain a where "LockDelay_activate (s\<lparr>active := a\<rparr>) = Some s'"
    by (auto dest: Drop_consume_SomeD)
  from activate_scores [OF this] assms(2) show ?thesis by simp
next
  case LockDelay
  with assms(1) LockDelay_consume_SomeD [of s s']
  consider "s' = s" | "s' = s\<lparr>lockDelayCount := lockDelayCount s + FRAME_MS\<rparr>"
    | "LockDelay_activate (s\<lparr>lockDelayCount := lockDelayCount s + FRAME_MS\<rparr>) = Some s'"
    by auto
  then show ?thesis
  proof cases
    case 3
    from activate_scores [OF this] assms(2) show ?thesis by simp
  qed (use assms in simp_all)
next
  case Hold
  with assms Hold_consume_fields [of s s'] show ?thesis by simp
next
  case Restart
  with assms Restart_consume_flags [of s s'] show ?thesis by simp
next
  case (Pause b)
  with assms show ?thesis by (auto simp: Pause_consume_def)
next
  case (Down b)
  with assms Down_consume_kept [of b s s'] show ?thesis by simp
next
  case (Connect b)
  with assms show ?thesis by (auto simp: Connect_consume_def)
next
  case (GarbageOut n)
  with assms GarbageOut_consume_SomeD [of n s s'] show ?thesis by auto
qed

lemma reduceState_SomeD: "reduceState s e = Some s' \<Longrightarrow> s' = s \<or> consume e s = Some s'"
  by (auto simp: reduceState_def split: if_splits)

lemma length_enumerate_from0 [simp]: "length (enumerate_from0 xs) = length xs"
  by (simp add: enumerate_from0_def)

lemma LockDelay_merge_dims:
  assumes "LockDelay_merge a f = Some m"
  shows "length m = length f \<and> (\<forall>i<length f. length (m ! i) = length (f ! i))"
proof -
  let ?cell = "\<lambda>rowIndex (c, colIndex).
         let y = int rowIndex - pos_y (pos a);
             x = int colIndex - pos_x (pos a)
         in do {
           inActive \<leftarrow> withinBound (shape a) x y;
           Some (if (if inActive then truthy (cell_at (shape a ! nat y) (nat x)) else False)
                 then Colour (colour a) else c)
         }"
  let ?row = "\<lambda>(row, rowIndex). those (map (?cell rowIndex) (enumerate_from0 row))"
  from assms have "those (map ?row (enumerate_from0 f)) = Some m"
    by (simp add: LockDelay_merge_def)
  from those_map_SomeD [OF this]
  have len: "length m = length f"
    and rows: "\<forall>i<length f. ?row (enumerate_from0 f ! i) = Some (m ! i)"
    by simp_all
  have "length (m ! i) = length (f ! i)" if "i < length f" for i
  proof -
    from that have "enumerate_from0 f ! i = (f ! i, i)"
      by (simp add: enumerate_from0_def)
    moreover from rows that have "?row (enumerate_from0 f ! i) = Some (m ! i)"
      by blast
    ultimately have "those (map (?cell i) (enumerate_from0 (f ! i))) = Some (m ! i)"
      by simp
    from those_map_SomeD [OF this] show ?thesis by simp
  qed
  with len show ?thesis by blast
qed

lemma LockDelay_merge_wf:
  assumes "LockDelay_merge a f = Some m" and "\<forall>row \<in> set f. length row = w"
  shows "length m = length f \<and> (\<forall>row \<in> set m. length row = w)"
proof -
  from LockDelay_merge_dims [OF assms(1)]
  have len: "length m = length f" and rows: "\<forall>i<length f. length (m ! i) = length (f ! i)"
    by simp_all
  have "length row = w" if "row \<in> set m" for row
  proof -
    from that obtain i where "i < length m" "row = m ! i"
      by (auto simp: in_set_conv_nth)
    with rows len assms(2) show ?thesis by simp
  qed
  with len show ?thesis by blast
qed

lemma LockDelay_clear_wf:
  assumes "LockDelay_clear f = Some (c, nf)" and "\<forall>row \<in> set f. length row = 10"
  shows "length nf = length f \<and> (\<forall>row \<in> set nf. length row = 10)"
proof -
  from LockDelay_clear_SomeD [OF assms(1)]
  have c: "c = int (length (filter (list_all truthy) f))"
    and nf: "nf = replicate (nat c) (replicate 10 (Num 0)) @ filter (\<lambda>row. \<not> list_all truthy row) f"
    by simp_all
  have "length (filter (list_all truthy) f) + length (filter (\<lambda>row. \<not> list_all truthy row) f)
          = length f"
    by (rule sum_length_filter_compl)
  with c nf have "length nf = length f" by simp
  moreover from nf assms(2) have "\<forall>row \<in> set nf. length row = 10" by auto
  ultimately show ?thesis by blast
qed

lemma activate_wf:
  assumes "LockDelay_activate s = Some s'" and "\<forall>row \<in> set (floor_js s). length row = 10"
  shows "length (floor_js s') = length (floor_js s) \<and> (\<forall>row \<in> set (floor_js s'). length row = 10)"
proof -
  from LockDelay_activate_SomeD [OF assms(1)] obtain merged c nf
    where merged: "LockDelay_merge (active s) (floor_js s) = Some merged"
      and clear: "LockDelay_clear merged = Some (c, nf)" and nf: "floor_js s' = nf"
    by auto
  from LockDelay_merge_wf [OF merged assms(2)]
  have m: "length merged = length (floor_js s)" "\<forall>row \<in> set merged. length row = 10"
    by blast+
  from LockDelay_clear_wf [OF clear m(2)]
  have "length nf = length merged" "\<forall>row \<in> set nf. length row = 10"
    by blast+
  with m(1) show ?thesis
    unfolding nf by simp
qed

lemma slice_from_nonneg: "0 \<le> m \<Longrightarrow> slice_from xs m = drop (nat m) xs"
  by (simp add: slice_from_def slice_bound_def min_def)

lemma slice_0_nonneg: "0 \<le> m \<Longrightarrow> slice xs 0 m = take (nat m) xs"
  by (simp add: slice_def slice_bound_def min_def)

lemma garbage_row_nat:
  assumes "k < 10"
  shows "slice (replicate 10 c) 0 (int k) @ [Num 0] @ slice_from (replicate 10 c) (int k + 1)
           = (replicate 10 c)[k := Num 0]"
proof -
  have "slice_from (replicate 10 c) (int k + 1) = drop (Suc k) (replicate 10 c)"
    using slice_from_nonneg [of "int k + 1" "replicate 10 c"] by (simp add: nat_add_distrib)
  moreover have "slice (replicate 10 c) 0 (int k) = take k (replicate 10 c)"
    using slice_0_nonneg [of "int k" "replicate 10 c"] by simp
  moreover from assms have "(replicate 10 c)[k := Num 0]
               = take k (replicate 10 c) @ Num 0 # drop (Suc k) (replicate 10 c)"
    by (simp add: upd_conv_take_nth_drop)
  ultimately show ?thesis by simp
qed

lemma garbage_row:
  assumes "0 \<le> h" "h < 10"
  shows "slice (replicate 10 c) 0 h @ [Num 0] @ slice_from (replicate 10 c) (h + 1)
           = (replicate 10 c)[nat h := Num 0]"
  using garbage_row_nat [of "nat h" c] assms by simp

lemma GarbageOut_garbage_eq:
  assumes "0 \<le> seed_of (rng s)" and "0 \<le> numRowsToDelete n" and "numRowsToDelete n \<le> 4294967295"
  shows "GarbageOut_garbage n s =
           Some (replicate (nat (numRowsToDelete n))
                   ((replicate 10 (Colour Brown))[nat (LazyRNG_value (rng s) mod 10) := Num 0]))"
proof -
  from assms(1) have v: "0 \<le> LazyRNG_value (rng s)"
    by (simp add: LazyRNG_value_def hash_nonneg)
  then have h: "holeIndex s = LazyRNG_value (rng s) mod 10"
    by (simp add: holeIndex_def js_rem_def GRID_WIDTH_def)
  have "0 \<le> holeIndex s" "holeIndex s < 10"
    by (simp_all add: h)
  from garbage_row [OF this] assms(2,3) show ?thesis
    by (simp add: GarbageOut_garbage_def makeFloor_eq h map_replicate_const)
qed


lemma GarbageOut_garbage_nonneg:
  "GarbageOut_garbage n s = Some g \<Longrightarrow> 0 \<le> numRowsToDelete n \<and> numRowsToDelete n \<le> 4294967295"
  by (auto simp: GarbageOut_garbage_def makeFloor_eq split: if_splits)

lemma GarbageOut_floor_wf:
  assumes "GarbageOut_consume n s = Some s'"
    and "length (floor_js s) = 20" and "\<forall>row \<in> set (floor_js s). length row = 10"
    and "0 \<le> seed_of (rng s)" and "numRowsToDelete n \<le> 20"
  shows "length (floor_js s') = 20 \<and> (\<forall>row \<in> set (floor_js s'). length row = 10)"
proof -
  from GarbageOut_consume_SomeD [OF assms(1)] obtain g
    where g: "GarbageOut_garbage n s = Some g"
      and fl: "floor_js s' = slice_from (floor_js s) (numRowsToDelete n) @ g"
    by auto
  from GarbageOut_garbage_nonneg [OF g]
  have m: "0 \<le> numRowsToDelete n" "numRowsToDelete n \<le> 4294967295"
    by simp_all
  from GarbageOut_garbage_eq [OF assms(4) m] g
  have g_eq: "g = replicate (nat (numRowsToDelete n))
                    ((replicate 10 (Colour Brown))[nat (LazyRNG_value (rng s) mod 10) := Num 0])"
    by simp
  from m(1) fl have fl': "floor_js s' = drop (nat (numRowsToDelete n)) (floor_js s) @ g"
    by (simp add: slice_from_nonneg)
  have "length (floor_js s') = 20"
    using assms(2,5) m(1) by (simp add: fl' g_eq)
  moreover have "length row = 10" if "row \<in> set (floor_js s')" for row
  proof -
    from that fl' have "row \<in> set (floor_js s) \<or> row \<in> set g"
      by (auto dest: in_set_dropD)
    with assms(3) show ?thesis
      by (auto simp: g_eq)
  qed
  ultimately show ?thesis by blast
qed

lemma consume_floor_wf:
  assumes "consume e s = Some s'"
    and "length (floor_js s) = 20" and "\<forall>row \<in> set (floor_js s). length row = 10"
    and "0 \<le> seed_of (rng s)" and "\<forall>n. e = GarbageOut n \<longrightarrow> numRowsToDelete n \<le> 20"
  shows "length (floor_js s') = 20 \<and> (\<forall>row \<in> set (floor_js s'). length row = 10)"
proof (cases e)
  case Tick
  with assms Tick_consume_kept [of s s'] show ?thesis by simp
next
  case (Rotate d)
  with assms Rotate_consume_kept [of d s s'] show ?thesis by simp
next
  case (Move d)
  with assms Move_consume_kept [of d s s'] show ?thesis by simp
next
  case Drop
  with assms(1) obtain a where "LockDelay_activate (s\<lparr>active := a\<rparr>) = Some s'"
    by (auto dest: Drop_consume_SomeD)
  from activate_wf [OF this] assms(2,3) show ?thesis by simp
next
  case LockDelay
  with assms(1) LockDelay_consume_SomeD [of s s']
  consider "s' = s" | "s' = s\<lparr>lockDelayCount := lockDelayCount s + FRAME_MS\<rparr>"
    | "LockDelay_activate (s\<lparr>lockDelayCount := lockDelayCount s + FRAME_MS\<rparr>) = Some s'"
    by auto
  then show ?thesis
  proof cases
    case 3
    from activate_wf [OF this] assms(2,3) show ?thesis by simp
  qed (use assms in simp_all)
next
  case Hold
  with assms Hold_consume_fields [of s s'] show ?thesis by simp
next
  case Restart
  with assms(1) Restart_consume_flags [of s s'] show ?thesis by simp
next
  case (Pause b)
  with assms show ?thesis by (auto simp: Pause_consume_def)
next
  case (Down b)
  with assms Down_consume_kept [of b s s'] show ?thesis by simp
next
  case (Connect b)
  with assms show ?thesis by (auto simp: Connect_consume_def)
next
  case (GarbageOut n)
  with assms GarbageOut_floor_wf [of n s s'] show ?thesis by simp
qed

lemma filter_first:
  "filter P xs = y # ys \<Longrightarrow> \<exists>i<length xs. xs ! i = y \<and> P y \<and> (\<forall>j<i. \<not> P (xs ! j))"
proof (induction xs)
  case Nil
  then show ?case by simp
next
  case (Cons x xs)
  show ?case
  proof (cases "P x")
    case True
    with Cons.prems have "x = y" by simp
    with True show ?thesis by (intro exI [of _ 0]) simp
  next
    case False
    with Cons obtain i where i: "i < length xs" "xs ! i = y" "P y" "\<forall>j<i. \<not> P (xs ! j)"
      by auto
    have "\<forall>j<Suc i. \<not> P ((x # xs) ! j)"
      using False i(4) by (auto simp: less_Suc_eq_0_disj)
    with i show ?thesis by (intro exI [of _ "Suc i"]) simp
  qed
qed

lemma private_rotate_SomeD:
  assumes "private_rotate this to f = Some r"
  shows "\<exists>ks. getData this to = Some ks
           \<and> ((\<exists>i<length ks. r = moveBy to (ks ! i)
                  \<and> validPos (moveBy to (ks ! i)) f = Some True
                  \<and> (\<forall>j<i. validPos (moveBy to (ks ! j)) f = Some False))
               \<or> ((\<forall>j<length ks. validPos (moveBy to (ks ! j)) f = Some False) \<and> r = this))"
proof -
  from assms obtain ks tested
    where ks: "getData this to = Some ks"
      and tested: "those (map (\<lambda>t. map_option (Pair t) (validPos t f))
                            (map (\<lambda>p. moveBy to p) ks)) = Some tested"
      and r: "r = (if length (map fst (filter snd tested)) = 0 then this
                   else map fst (filter snd tested) ! 0)"
    by (auto simp: private_rotate_def Option.bind_eq_Some_conv Let_def)
  from tested have "those (map (\<lambda>p. map_option (Pair (moveBy to p)) (validPos (moveBy to p) f)) ks)
                      = Some tested"
    by (simp add: comp_def)
  from those_map_SomeD [OF this]
  have len: "length tested = length ks"
    and each: "\<forall>j<length ks. map_option (Pair (moveBy to (ks ! j))) (validPos (moveBy to (ks ! j)) f)
                               = Some (tested ! j)"
    by simp_all
  have nth: "validPos (moveBy to (ks ! j)) f = Some (snd (tested ! j))
               \<and> fst (tested ! j) = moveBy to (ks ! j)" if "j < length ks" for j
  proof -
    from each that
    have "map_option (Pair (moveBy to (ks ! j))) (validPos (moveBy to (ks ! j)) f) = Some (tested ! j)"
      by blast
    then obtain z where "validPos (moveBy to (ks ! j)) f = Some z"
      and "tested ! j = (moveBy to (ks ! j), z)"
      by auto
    then show ?thesis by simp
  qed
  show ?thesis
  proof (cases "filter snd tested")
    case Nil
    then have "\<forall>j<length ks. \<not> snd (tested ! j)"
      by (simp add: filter_empty_conv len)
    with nth Nil r ks show ?thesis by auto
  next
    case (Cons y ys)
    from filter_first [OF Cons] obtain i
      where i: "i < length tested" "tested ! i = y" "snd y" "\<forall>j<i. \<not> snd (tested ! j)"
      by auto
    from Cons r have "r = fst y" by simp
    with i nth [of i] len have "r = moveBy to (ks ! i)"
      "validPos (moveBy to (ks ! i)) f = Some True"
      by auto
    moreover have "\<forall>j<i. validPos (moveBy to (ks ! j)) f = Some False"
      using i(1,4) nth len by auto
    ultimately show ?thesis using ks i(1) len by auto
  qed
qed

section \<open>Lock activation\<close>

text \<open>
  Claim C3. When lock activation runs, on Drop for the dropped piece \<open>a\<close>, or on LockDelay
  for the active piece once the counter reaches \<open>LOCK_DELAY\<close> while the piece cannot move
  down, let \<open>c\<close> be the number of full rows of the floor with the piece merged in (the rows
  \<open>clear\<close> removes). Then the new score is the old score plus \<open>100 * c\<^sup>2\<close>, the new total
  of cleared lines is the old one plus \<open>c\<close>, the new level is one plus the new total
  divided by \<open>LEVEL_CUTOFF\<close>, rounded down, and the new high score is the larger of the old
  high score and the new score.
\<close>

theorem lock_activation_scoring:
  assumes "(e = Drop \<and> drop_js (active s) (floor_js s) = Some a)
           \<or> (e = LockDelay \<and> a = active s
               \<and> validPos (moveBy (active s) (Pos 0 1)) (floor_js s) = Some False
               \<and> LOCK_DELAY \<le> lockDelayCount s + FRAME_MS)"
    and "consume e s = Some s'"
  shows "\<exists>merged. LockDelay_merge a (floor_js s) = Some merged
           \<and> (let c = int (length (filter (list_all truthy) merged))
              in score s' = score s + 100 * c ^ 2
                 \<and> cleared s' = cleared s + c
                 \<and> level s' = 1 + (cleared s + c) div LEVEL_CUTOFF
                 \<and> highScore s' = max (highScore s) (score s'))"
proof -
  from assms have "\<exists>l. LockDelay_activate (s\<lparr>active := a, lockDelayCount := l\<rparr>) = Some s'"
  proof (elim disjE conjE)
    assume "e = Drop" "drop_js (active s) (floor_js s) = Some a"
    with assms(2) have "LockDelay_activate (s\<lparr>active := a, lockDelayCount := lockDelayCount s\<rparr>) = Some s'"
      by (simp add: Drop_consume_def)
    then show ?thesis ..
  next
    assume "e = LockDelay" "a = active s"
      "validPos (moveBy (active s) (Pos 0 1)) (floor_js s) = Some False"
      "LOCK_DELAY \<le> lockDelayCount s + FRAME_MS"
    with assms(2)
    have "LockDelay_activate (s\<lparr>active := a, lockDelayCount := lockDelayCount s + FRAME_MS\<rparr>) = Some s'"
      by (simp add: LockDelay_consume_def)
    then show ?thesis ..
  qed
  then obtain l where "LockDelay_activate (s\<lparr>active := a, lockDelayCount := l\<rparr>) = Some s'" ..
  from LockDelay_activate_SomeD [OF this] obtain merged c nf
    where "LockDelay_merge a (floor_js s) = Some merged" "LockDelay_clear merged = Some (c, nf)"
      "score s' = score s + 100 * c ^ 2" "cleared s' = cleared s + c"
      "level s' = 1 + (cleared s + c) div LEVEL_CUTOFF"
      "highScore s' = max (highScore s) (score s + 100 * c ^ 2)"
    by auto
  with LockDelay_clear_SomeD [of merged c nf] show ?thesis
    by (intro exI [of _ merged]) (simp add: Let_def)
qed

lemma Drop_almostFull:
  "drop_js (active (initialState_value\<lparr>floor_js := almostFullFloor, cleared := 1\<rparr>))
     (floor_js (initialState_value\<lparr>floor_js := almostFullFloor, cleared := 1\<rparr>))
     = Some (spawnT\<lparr>pos := Pos 3 18\<rparr>)
   \<and> consume Drop (initialState_value\<lparr>floor_js := almostFullFloor, cleared := 1\<rparr>) \<noteq> None
   \<and> map_option (length \<circ> filter (list_all truthy))
         (LockDelay_merge (spawnT\<lparr>pos := Pos 3 18\<rparr>) almostFullFloor) = Some 1"
  by code_simp

theorem lock_activation_scoring_witness:
  "\<exists>s'. consume Drop (initialState_value\<lparr>floor_js := almostFullFloor, cleared := 1\<rparr>) = Some s'
         \<and> score s' = 100 \<and> cleared s' = 2 \<and> level s' = 2 \<and> highScore s' = 100"
proof -
  let ?s = "initialState_value\<lparr>floor_js := almostFullFloor, cleared := 1\<rparr>"
  from Drop_almostFull obtain s' where s': "consume Drop ?s = Some s'"
    by auto
  from Drop_almostFull
  have trigger: "(Drop = Drop \<and> drop_js (active ?s) (floor_js ?s) = Some (spawnT\<lparr>pos := Pos 3 18\<rparr>))
           \<or> (Drop = LockDelay \<and> spawnT\<lparr>pos := Pos 3 18\<rparr> = active ?s
               \<and> validPos (moveBy (active ?s) (Pos 0 1)) (floor_js ?s) = Some False
               \<and> LOCK_DELAY \<le> lockDelayCount ?s + FRAME_MS)"
    by blast
  from lock_activation_scoring [OF trigger s'] obtain merged
    where merged: "LockDelay_merge (spawnT\<lparr>pos := Pos 3 18\<rparr>) (floor_js ?s) = Some merged"
      and scoring: "let c = int (length (filter (list_all truthy) merged))
              in score s' = score ?s + 100 * c ^ 2
                 \<and> cleared s' = cleared ?s + c
                 \<and> level s' = 1 + (cleared ?s + c) div LEVEL_CUTOFF
                 \<and> highScore s' = max (highScore ?s) (score s')"
    by blast
  from merged Drop_almostFull have "length (filter (list_all truthy) merged) = 1"
    by simp
  with scoring s' show ?thesis
    by (simp add: initialState_value_def LEVEL_CUTOFF_def)
qed

section \<open>The high score bounds the score\<close>

lemma reachable_scores: "reachable s \<Longrightarrow> 0 \<le> highScore s \<and> score s \<le> highScore s"
proof (induction rule: reachable.induct)
  case (initial s)
  then have "s = initialState_value" by (simp add: initialState_eq)
  then show ?case by (simp add: initialState_value_def)
next
  case (step s e s')
  from reduceState_SomeD [OF step.hyps(2)] step.IH consume_scores [of e s s']
  show ?case by auto
qed



text \<open>
  Claim C10. In every state reachable from the initial state by any sequence of events,
  the score is at most the high score.
\<close>

theorem reachable_highScore:
  assumes "reachable s"
  shows "score s \<le> highScore s"
  using reachable_scores [OF assms] by simp

lemma reachable_after_drop:
  "reduceState initialState_value Drop \<noteq> None"
  by code_simp

theorem reachable_highScore_witness:
  "reachable initialState_value \<and> score initialState_value \<le> highScore initialState_value
   \<and> (\<exists>s'. reduceState initialState_value Drop = Some s' \<and> reachable s'
          \<and> score s' \<le> highScore s')"
proof -
  have start: "reachable initialState_value"
    by (rule reachable.initial) (rule initialState_eq)
  from reachable_after_drop obtain s' where s': "reduceState initialState_value Drop = Some s'"
    by auto
  with start have next_state: "reachable s'"
    by (rule reachable.step)
  from reachable_highScore [OF start] reachable_highScore [OF next_state] start next_state s'
  show ?thesis
    by blast
qed

section \<open>The dimensions of the floor\<close>

text \<open>
  Claim C7, as stated, fails: a GarbageOut event whose row count exceeds the height of the
  floor removes all the rows there are and appends more. On the initial state,
  \<open>GarbageOut(21)\<close> turns the floor of 20 rows into one of 21 rows.
\<close>

theorem GarbageOut_grows_floor:
  "map_option (length \<circ> floor_js) (reduceState initialState_value (GarbageOut 21)) = Some 21
   \<and> length (floor_js initialState_value) = 20"
  by code_simp

text \<open>
  Claim C7, amended. Let the floor have \<open>GRID_HEIGHT\<close> rows of \<open>GRID_WIDTH\<close> cells and
  the seed held by the sequence be non-negative. For every event other than a GarbageOut
  whose row count exceeds \<open>GRID_HEIGHT\<close>, the floor of the state that \<open>reduceState\<close> returns has
  the same number of rows, each of \<open>GRID_WIDTH\<close> cells. Moreover \<open>clear\<close> returns as
  many fresh empty rows as the floor had full rows, followed by the other rows in order,
  which are as many rows as the floor had; and such a GarbageOut removes as many rows
  from the top as it has garbage rows to append.
\<close>

theorem floor_dimensions_preserved:
  assumes "length (floor_js s) = nat GRID_HEIGHT"
    and "\<forall>row \<in> set (floor_js s). length row = nat GRID_WIDTH"
    and "0 \<le> seed_of (rng s)"
    and "\<forall>n. e = GarbageOut n \<longrightarrow> numRowsToDelete n \<le> GRID_HEIGHT"
    and "reduceState s e = Some s'"
  shows "length (floor_js s') = length (floor_js s)
         \<and> (\<forall>row \<in> set (floor_js s'). length row = nat GRID_WIDTH)
         \<and> (\<forall>f c nf. LockDelay_clear f = Some (c, nf) \<longrightarrow>
                c = int (length (filter (list_all truthy) f))
                \<and> nf = replicate (nat c) (replicate (nat GRID_WIDTH) (Num 0))
                         @ filter (\<lambda>row. \<not> list_all truthy row) f
                \<and> length nf = length f)
         \<and> (\<forall>n g. e = GarbageOut n \<and> GarbageOut_garbage n s = Some g \<longrightarrow>
                length (GarbageOut_removed n s) = length g)"
proof (intro conjI allI impI)
  from reduceState_SomeD [OF assms(5)]
  have "length (floor_js s') = 20 \<and> (\<forall>row \<in> set (floor_js s'). length row = 10)"
  proof
    assume "s' = s"
    with assms(1,2) show ?thesis by (simp add: GRID_HEIGHT_def GRID_WIDTH_def)
  next
    assume "consume e s = Some s'"
    from consume_floor_wf [OF this] assms(1-4) show ?thesis
      by (simp add: GRID_HEIGHT_def GRID_WIDTH_def)
  qed
  with assms(1) show "length (floor_js s') = length (floor_js s)"
    and "\<forall>row \<in> set (floor_js s'). length row = nat GRID_WIDTH"
    by (simp_all add: GRID_HEIGHT_def GRID_WIDTH_def)
next
  fix f c nf
  assume clear: "LockDelay_clear f = Some (c, nf)"
  from LockDelay_clear_SomeD [OF clear]
  show c: "c = int (length (filter (list_all truthy) f))"
    and nf: "nf = replicate (nat c) (replicate (nat GRID_WIDTH) (Num 0))
                    @ filter (\<lambda>row. \<not> list_all truthy row) f"
    by (simp_all add: GRID_WIDTH_def)
  have "length (filter (list_all truthy) f) + length (filter (\<lambda>row. \<not> list_all truthy row) f)
          = length f"
    by (rule sum_length_filter_compl)
  with c nf show "length nf = length f"
    by simp
next
  fix n g
  assume garbage: "e = GarbageOut n \<and> GarbageOut_garbage n s = Some g"
  then have g: "GarbageOut_garbage n s = Some g"
    by simp
  from GarbageOut_garbage_nonneg [OF g]
  have m: "0 \<le> numRowsToDelete n" "numRowsToDelete n \<le> 4294967295"
    by simp_all
  from GarbageOut_garbage_eq [OF assms(3) m] g have "length g = nat (numRowsToDelete n)"
    by auto
  moreover from garbage assms(4) have "numRowsToDelete n \<le> GRID_HEIGHT"
    by simp
  ultimately show "length (GarbageOut_removed n s) = length g"
    using assms(1) m(1) by (simp add: GarbageOut_removed_def slice_0_nonneg)
qed

lemma GarbageOut4_initial:
  "reduceState initialState_value (GarbageOut 4) \<noteq> None
   \<and> length (floor_js initialState_value) = nat GRID_HEIGHT
   \<and> list_all (\<lambda>row. length row = nat GRID_WIDTH) (floor_js initialState_value)
   \<and> 0 \<le> seed_of (rng initialState_value)
   \<and> numRowsToDelete 4 \<le> GRID_HEIGHT"
  by code_simp

theorem floor_dimensions_preserved_witness:
  "\<exists>s'. reduceState initialState_value (GarbageOut 4) = Some s'
         \<and> length (floor_js s') = 20 \<and> (\<forall>row \<in> set (floor_js s'). length row = 10)"
proof -
  from GarbageOut4_initial obtain s'
    where s': "reduceState initialState_value (GarbageOut 4) = Some s'"
    by auto
  from GarbageOut4_initial
  have rows: "\<forall>row \<in> set (floor_js initialState_value). length row = nat GRID_WIDTH"
    by (simp add: list_all_iff)
  from GarbageOut4_initial
  have bound: "\<forall>n. GarbageOut 4 = GarbageOut n \<longrightarrow> numRowsToDelete n \<le> GRID_HEIGHT"
    by simp
  from GarbageOut4_initial
  have height: "length (floor_js initialState_value) = nat GRID_HEIGHT"
    and seed: "0 \<le> seed_of (rng initialState_value)"
    by simp_all
  from floor_dimensions_preserved [OF height rows seed bound s'] s' height show ?thesis
    by (simp add: GRID_HEIGHT_def GRID_WIDTH_def)
qed

section \<open>Garbage rows\<close>

text \<open>
  Claim C2, as stated, fails for a row count above the height of the floor: on the initial
  state, which is neither paused nor ended, \<open>GarbageOut(21)\<close> removes the 20 rows there are
  and appends 21.
\<close>

theorem GarbageOut_removes_fewer_than_appended:
  "\<not> isPaused initialState_value \<and> \<not> gameEnd initialState_value
   \<and> numRowsToDelete 21 = 21
   \<and> length (GarbageOut_removed 21 initialState_value) = 20
   \<and> map_option length (GarbageOut_garbage 21 initialState_value) = Some 21"
  by code_simp

text \<open>
  Claim C2, amended. Let the state be neither paused nor ended, its floor have
  \<open>GRID_HEIGHT\<close> rows and the seed held by its sequence be non-negative, and let \<open>m\<close> be 0, 1,
  2 for \<open>n\<close> = 1, 2, 3 and \<open>n\<close> otherwise. If \<open>0 \<le> m \<le> GRID_HEIGHT\<close>, then \<open>GarbageOut(n)\<close>
  returns a state: the rows removed are the first \<open>m\<close> rows, the garbage has \<open>m\<close> rows, the
  new floor is the remaining rows followed by the garbage, and each garbage row has
  \<open>GRID_WIDTH\<close> cells, all brown but the one at the column given by the current sequence
  value modulo \<open>GRID_WIDTH\<close>, which is empty.
\<close>

theorem GarbageOut_rows:
  assumes "\<not> isPaused s" and "\<not> gameEnd s"
    and "length (floor_js s) = nat GRID_HEIGHT" and "0 \<le> seed_of (rng s)"
    and "m = (if n = 1 then 0 else if n = 2 then 1 else if n = 3 then 2 else n)"
    and "0 \<le> m" and "m \<le> GRID_HEIGHT"
  shows "\<exists>s' g. reduceState s (GarbageOut n) = Some s'
           \<and> GarbageOut_garbage n s = Some g
           \<and> GarbageOut_removed n s = take (nat m) (floor_js s)
           \<and> floor_js s' = drop (nat m) (floor_js s) @ g
           \<and> int (length (GarbageOut_removed n s)) = m
           \<and> int (length g) = m
           \<and> (\<forall>row \<in> set g. length row = nat GRID_WIDTH
                  \<and> (\<forall>j<nat GRID_WIDTH. row ! j =
                        (if int j = LazyRNG_value (rng s) mod GRID_WIDTH then Num 0
                         else Colour Brown)))"
proof -
  from assms(5) have m: "numRowsToDelete n = m"
    by (simp add: numRowsToDelete_def)
  let ?row = "(replicate 10 (Colour Brown))[nat (LazyRNG_value (rng s) mod 10) := Num 0]"
  let ?g = "replicate (nat m) ?row"
  let ?fl = "drop (nat m) (floor_js s) @ ?g"
  from GarbageOut_garbage_eq [OF assms(4), of n] assms(6,7)
  have g: "GarbageOut_garbage n s = Some ?g"
    by (simp add: m GRID_HEIGHT_def)
  from assms(6) have removed: "GarbageOut_removed n s = take (nat m) (floor_js s)"
    by (simp add: GarbageOut_removed_def m slice_0_nonneg)
  from assms(4) have v: "0 \<le> LazyRNG_value (rng s)"
    by (simp add: LazyRNG_value_def hash_nonneg)
  from getTetromino_total [OF v] obtain act
    where act: "getTetromino (LazyRNG_value (rng s)) = Some act" "shape act \<noteq> []"
    by blast
  have len: "length ?fl = 20"
    using assms(3,6,7) by (simp add: GRID_HEIGHT_def)
  then have ne: "?fl \<noteq> []"
    by auto
  let ?s1 = "s\<lparr>floor_js := ?fl, active := act, gravityOffset := 0, lockDelayCount := 0\<rparr>"
  from updateHighlight_total [of ?s1] act(2) ne obtain h
    where h: "updateHighlight ?s1 = Some (?s1\<lparr>highlight := h\<rparr>)"
    by auto
  from ne obtain ended where ended: "gameEnd_floor ?fl = Some ended"
    by (cases ?fl) (auto simp: gameEnd_floor_def)
  from assms(6) have sf: "slice_from (floor_js s) m = drop (nat m) (floor_js s)"
    by (rule slice_from_nonneg)
  have "\<exists>s'. GarbageOut_consume n s = Some s' \<and> floor_js s' = ?fl"
    using g act(1) h ended
    by (simp add: GarbageOut_consume_def Let_def m sf resetGravity_def resetLock_def)
  then obtain s' where s': "reduceState s (GarbageOut n) = Some s'" "floor_js s' = ?fl"
    using assms(1,2) by (auto simp: reduceState_def)
  have hole: "nat (LazyRNG_value (rng s) mod 10) < 10"
    by simp
  have rows: "\<forall>row \<in> set ?g. length row = nat GRID_WIDTH
                  \<and> (\<forall>j<nat GRID_WIDTH. row ! j =
                        (if int j = LazyRNG_value (rng s) mod GRID_WIDTH then Num 0
                         else Colour Brown))"
    using hole by (auto simp: GRID_WIDTH_def nth_list_update)
  from assms(3,6,7) have len_removed: "int (length (GarbageOut_removed n s)) = m"
    by (simp add: removed GRID_HEIGHT_def)
  from assms(6) have len_g: "int (length ?g) = m"
    by simp
  from s' g removed len_removed len_g rows show ?thesis
    by blast
qed

lemma GarbageOut3_initial:
  "\<not> isPaused initialState_value \<and> \<not> gameEnd initialState_value
   \<and> length (floor_js initialState_value) = nat GRID_HEIGHT
   \<and> 0 \<le> seed_of (rng initialState_value)
   \<and> LazyRNG_value (rng initialState_value) mod GRID_WIDTH = 5"
  by code_simp

theorem GarbageOut_rows_witness:
  "\<exists>s' g. reduceState initialState_value (GarbageOut 3) = Some s'
     \<and> GarbageOut_garbage 3 initialState_value = Some g
     \<and> length (GarbageOut_removed 3 initialState_value) = 2 \<and> length g = 2
     \<and> floor_js s' = drop 2 (floor_js initialState_value) @ g
     \<and> (\<forall>row \<in> set g. length row = 10 \<and> row ! 5 = Num 0 \<and> row ! 4 = Colour Brown)"
proof -
  have m: "(2::int) = (if (3::int) = 1 then 0 else if (3::int) = 2 then 1
                       else if (3::int) = 3 then 2 else 3)"
    by simp
  have lo: "(0::int) \<le> 2" and hi: "2 \<le> GRID_HEIGHT"
    by (simp_all add: GRID_HEIGHT_def)
  from GarbageOut3_initial
  have p: "\<not> isPaused initialState_value" and e: "\<not> gameEnd initialState_value"
    and h: "length (floor_js initialState_value) = nat GRID_HEIGHT"
    and sd: "0 \<le> seed_of (rng initialState_value)"
    and hole: "LazyRNG_value (rng initialState_value) mod GRID_WIDTH = 5"
    by simp_all
  from GarbageOut_rows [OF p e h sd m lo hi] obtain s' g
    where "reduceState initialState_value (GarbageOut 3) = Some s'"
      and "GarbageOut_garbage 3 initialState_value = Some g"
      and "floor_js s' = drop (nat 2) (floor_js initialState_value) @ g"
      and "int (length (GarbageOut_removed 3 initialState_value)) = 2"
      and "int (length g) = 2"
      and rows: "\<forall>row \<in> set g. length row = nat GRID_WIDTH
                  \<and> (\<forall>j<nat GRID_WIDTH. row ! j =
                        (if int j = LazyRNG_value (rng initialState_value) mod GRID_WIDTH
                         then Num 0 else Colour Brown))"
    by blast
  moreover from rows hole
  have "\<forall>row \<in> set g. length row = 10 \<and> row ! 5 = Num 0 \<and> row ! 4 = Colour Brown"
    by (auto simp: GRID_WIDTH_def)
  ultimately show ?thesis
    by auto
qed

section \<open>Four rotations\<close>

lemma rect_eqI:
  assumes "rect R C a" "rect R C b" "\<forall>i<R. \<forall>j<C. a ! i ! j = b ! i ! j"
  shows "a = b"
proof (rule nth_equalityI)
  from assms show "length a = length b" by (simp add: rect_def)
next
  fix i assume i: "i < length a"
  with assms have la: "length (a ! i) = C" and lb: "length (b ! i) = C" and iR: "i < R"
    by (auto simp: rect_def)
  show "a ! i = b ! i"
  proof (rule nth_equalityI)
    from la lb show "length (a ! i) = length (b ! i)" by simp
  next
    fix j assume "j < length (a ! i)"
    with la assms(3) iR show "a ! i ! j = b ! i ! j" by simp
  qed
qed

lemma rotateMatrixRight_rect:
  assumes "rect R C m" and "0 < R"
  shows "\<exists>m'. rotateMatrixRight m = Some m' \<and> rect C R m'
           \<and> (\<forall>i<C. \<forall>j<R. m' ! i ! j = m ! (R - 1 - j) ! i)"
proof -
  from assms obtain r0 rest where m: "m = r0 # rest"
    by (cases m) (auto simp: rect_def)
  with assms have r0: "length r0 = C"
    by (simp add: rect_def)
  let ?m' = "map (\<lambda>i. map (\<lambda>row. cell_at row i) (rev m)) [0..<C]"
  have eq: "rotateMatrixRight m = Some ?m'"
    by (simp add: rotateMatrixRight_def pureReverse_rev m r0 Let_def)
  have rc: "rect C R ?m'"
    using assms(1) by (auto simp: rect_def)
  have "?m' ! i ! j = m ! (R - 1 - j) ! i" if "i < C" "j < R" for i j
  proof -
    from assms(1) that have "rev m ! j = m ! (R - 1 - j)"
      by (simp add: rect_def rev_nth)
    moreover from assms(1) that have "length (m ! (R - 1 - j)) = C"
      by (simp add: rect_def)
    ultimately show ?thesis
      using that assms(1) by (simp add: cell_at_def rect_def)
  qed
  with eq rc show ?thesis by blast
qed

lemma rotateMatrixRight_four:
  assumes "rect R C m" and "0 < R" and "0 < C"
  shows "\<exists>m1 m2 m3. rotateMatrixRight m = Some m1 \<and> rotateMatrixRight m1 = Some m2
           \<and> rotateMatrixRight m2 = Some m3 \<and> rotateMatrixRight m3 = Some m
           \<and> rect C R m1 \<and> rect R C m2 \<and> rect C R m3"
proof -
  from rotateMatrixRight_rect [OF assms(1,2)] obtain m1
    where m1: "rotateMatrixRight m = Some m1" "rect C R m1"
      "\<forall>i<C. \<forall>j<R. m1 ! i ! j = m ! (R - 1 - j) ! i"
    by blast
  from rotateMatrixRight_rect [OF m1(2) assms(3)] obtain m2
    where m2: "rotateMatrixRight m1 = Some m2" "rect R C m2"
      "\<forall>i<R. \<forall>j<C. m2 ! i ! j = m1 ! (C - 1 - j) ! i"
    by blast
  from rotateMatrixRight_rect [OF m2(2) assms(2)] obtain m3
    where m3: "rotateMatrixRight m2 = Some m3" "rect C R m3"
      "\<forall>i<C. \<forall>j<R. m3 ! i ! j = m2 ! (R - 1 - j) ! i"
    by blast
  from rotateMatrixRight_rect [OF m3(2) assms(3)] obtain m4
    where m4: "rotateMatrixRight m3 = Some m4" "rect R C m4"
      "\<forall>i<R. \<forall>j<C. m4 ! i ! j = m3 ! (C - 1 - j) ! i"
    by blast
  have "m4 ! i ! j = m ! i ! j" if "i < R" "j < C" for i j
  proof -
    from that m4(3) have "m4 ! i ! j = m3 ! (C - 1 - j) ! i" by simp
    also from that m3(3) have "\<dots> = m2 ! (R - 1 - i) ! (C - 1 - j)" by simp
    also from that m2(3) have "\<dots> = m1 ! (C - 1 - (C - 1 - j)) ! (R - 1 - i)" by simp
    also from that have "\<dots> = m1 ! j ! (R - 1 - i)" by simp
    also from that m1(3) have "\<dots> = m ! (R - 1 - (R - 1 - i)) ! j" by simp
    also from that have "\<dots> = m ! i ! j" by simp
    finally show ?thesis .
  qed
  with rect_eqI [OF m4(2) assms(1)] have "m4 = m" by blast
  with m1 m2 m3 m4 show ?thesis by blast
qed

lemma range_js_4: "range_js 4 = Some [0, 1, 2, 3]"
  by code_simp

lemma chain_js_0: "chain_js f e 0 = Some e"
  and chain_js_1: "chain_js f e 1 = f e"
  and chain_js_2: "chain_js f e 2 = Option.bind (f e) f"
  and chain_js_3: "chain_js f e 3 = Option.bind (Option.bind (f e) f) f"
proof -
  have r: "range_js 0 = Some []" "range_js 1 = Some [0]" "range_js 2 = Some [0, 1]"
    "range_js 3 = Some [0, 1, 2]"
    by code_simp+
  show "chain_js f e 0 = Some e" "chain_js f e 1 = f e"
    "chain_js f e 2 = Option.bind (f e) f"
    "chain_js f e 3 = Option.bind (Option.bind (f e) f) f"
    by (simp_all add: chain_js_def r)
qed

lemma simillarMatrix_cycle:
  assumes "rotateMatrixRight m = Some m1" "rotateMatrixRight m1 = Some m2"
    "rotateMatrixRight m2 = Some m3"
  shows "simillarMatrix m b =
           Some (matrix_toString m = matrix_toString b \<or> matrix_toString m1 = matrix_toString b
                 \<or> matrix_toString m2 = matrix_toString b \<or> matrix_toString m3 = matrix_toString b)"
  using assms
  by (simp add: simillarMatrix_def range_js_4 chain_js_0 chain_js_1 chain_js_2 chain_js_3)

lemma getData_offsets_cycle:
  assumes "rotateMatrixRight (shape a) = Some m1" "rotateMatrixRight m1 = Some m2"
    "rotateMatrixRight m2 = Some m3" "rotateMatrixRight m3 = Some (shape a)"
    and "shape b = m1 \<or> shape b = m2 \<or> shape b = m3"
  shows "getData_offsets b = getData_offsets a"
proof -
  have a: "simillarMatrix (shape a) x =
           Some (matrix_toString (shape a) = matrix_toString x \<or> matrix_toString m1 = matrix_toString x
                 \<or> matrix_toString m2 = matrix_toString x \<or> matrix_toString m3 = matrix_toString x)"
    for x
    by (rule simillarMatrix_cycle [OF assms(1-3)])
  have "simillarMatrix (shape b) x = simillarMatrix (shape a) x" for x
    using assms(5)
  proof (elim disjE)
    assume "shape b = m1"
    with simillarMatrix_cycle [OF assms(2-4), of x] a [of x] show ?thesis by auto
  next
    assume "shape b = m2"
    with simillarMatrix_cycle [OF assms(3,4,1), of x] a [of x] show ?thesis by auto
  next
    assume "shape b = m3"
    with simillarMatrix_cycle [OF assms(4,1,2), of x] a [of x] show ?thesis by auto
  qed
  then have "simillarMatrix (shape b) IBlock = simillarMatrix (shape a) IBlock"
    and "simillarMatrix (shape b) OBlock = simillarMatrix (shape a) OBlock"
    by simp_all
  then show ?thesis
    unfolding getData_offsets_def by (simp only:)
qed

lemma getData_offsets_tables:
  "getData_offsets a = Some T \<Longrightarrow> T = I_OFFSETS \<or> T = O_OFFSETS \<or> T = JLSTZ_OFFSETS"
  by (auto simp: getData_offsets_def Option.bind_eq_Some_conv split: if_splits)

lemma getData_head:
  assumes "getData_offsets from = Some T"
    and "rotationState from \<in> {0, 1, 2, 3}" and "rotationState to \<in> {0, 1, 2, 3}"
  shows "\<exists>ks. getData from to
           = Some (subtract (T ! nat (rotationState from) ! 0) (T ! nat (rotationState to) ! 0) # ks)"
proof -
  from getData_offsets_tables [OF assms(1)]
  consider "T = I_OFFSETS" | "T = O_OFFSETS" | "T = JLSTZ_OFFSETS"
    by blast
  then show ?thesis
  proof cases
    case 1
    with assms show ?thesis
      by (auto simp: getData_def I_OFFSETS_def index_def enumerate_from0_def)
  next
    case 2
    with assms show ?thesis
      by (auto simp: getData_def O_OFFSETS_def index_def enumerate_from0_def)
  next
    case 3
    with assms show ?thesis
      by (auto simp: getData_def JLSTZ_OFFSETS_def index_def enumerate_from0_def)
  qed
qed


lemma validPos_True_floor: "validPos t f = Some True \<Longrightarrow> f \<noteq> []"
  by (auto simp: validPos_def Option.bind_eq_Some_conv split: if_splits)

lemma private_rotate_first:
  assumes "getData this to = Some (k # ks)" and "validPos (moveBy to k) f = Some True"
    and "shape to \<noteq> []"
  shows "private_rotate this to f = Some (moveBy to k)"
proof -
  from assms(2) have f: "f \<noteq> []"
    by (rule validPos_True_floor)
  have "\<forall>x \<in> set (map (\<lambda>t. map_option (Pair t) (validPos t f)) (map (\<lambda>p. moveBy to p) ks)). x \<noteq> None"
    using validPos_neq_None [OF _ f] assms(3) by auto
  then obtain rest
    where "those (map (\<lambda>t. map_option (Pair t) (validPos t f)) (map (\<lambda>p. moveBy to p) ks)) = Some rest"
    using those_neq_None by blast
  with assms(1,2) show ?thesis
    by (simp add: private_rotate_def)
qed

lemma first_candidate_right:
  assumes "0 < d" and "rotateMatrixRight (shape Q) = Some n"
    and "getData_offsets Q = Some T" and "rotationState Q \<in> {0, 1, 2, 3}"
  shows "first_candidate d Q =
           Some \<lparr>shape = n, colour = colour Q,
                 pos = add (pos Q) (subtract (T ! nat (rotationState Q) ! 0)
                                      (T ! nat ((rotationState Q + 1) mod 4) ! 0)),
                 rotationState = (rotationState Q + 1) mod 4\<rparr>"
    and "validPos \<lparr>shape = n, colour = colour Q,
                 pos = add (pos Q) (subtract (T ! nat (rotationState Q) ! 0)
                                      (T ! nat ((rotationState Q + 1) mod 4) ! 0)),
                 rotationState = (rotationState Q + 1) mod 4\<rparr> f = Some True
         \<Longrightarrow> n \<noteq> []
         \<Longrightarrow> rotate_towards d Q f = first_candidate d Q"
proof -
  let ?to = "\<lparr>shape = n, colour = colour Q, pos = pos Q,
             rotationState = (rotationState Q + 1) mod 4\<rparr>"
  from assms(4) have rs: "js_rem (rotationState Q + 1) 4 = (rotationState Q + 1) mod 4"
    by (auto simp: js_rem_def)
  from assms(2) have to: "rotateRight_rotated Q = Some ?to"
    by (simp add: rotateRight_rotated_def rs)
  from assms(4) have "rotationState ?to \<in> {0, 1, 2, 3}"
    by auto
  from getData_head [OF assms(3,4) this] obtain ks
    where ks: "getData Q ?to = Some (subtract (T ! nat (rotationState Q) ! 0)
                                       (T ! nat ((rotationState Q + 1) mod 4) ! 0) # ks)"
    by auto
  from to ks assms(1) show first: "first_candidate d Q =
           Some \<lparr>shape = n, colour = colour Q,
                 pos = add (pos Q) (subtract (T ! nat (rotationState Q) ! 0)
                                      (T ! nat ((rotationState Q + 1) mod 4) ! 0)),
                 rotationState = (rotationState Q + 1) mod 4\<rparr>"
    by (simp add: first_candidate_def moveBy_def)
  assume "validPos \<lparr>shape = n, colour = colour Q,
                 pos = add (pos Q) (subtract (T ! nat (rotationState Q) ! 0)
                                      (T ! nat ((rotationState Q + 1) mod 4) ! 0)),
                 rotationState = (rotationState Q + 1) mod 4\<rparr> f = Some True"
    and "n \<noteq> []"
  then have "private_rotate Q ?to f
               = Some (moveBy ?to (subtract (T ! nat (rotationState Q) ! 0)
                                     (T ! nat ((rotationState Q + 1) mod 4) ! 0)))"
    by (intro private_rotate_first [OF ks]) (simp_all add: moveBy_def)
  with to assms(1) first show "rotate_towards d Q f = first_candidate d Q"
    by (simp add: rotate_towards_def rotateRight_def moveBy_def)
qed

lemma first_candidate_left:
  assumes "\<not> 0 < d" and "rotateMatrixLeft (shape Q) = Some n"
    and "getData_offsets Q = Some T" and "rotationState Q \<in> {0, 1, 2, 3}"
  shows "first_candidate d Q =
           Some \<lparr>shape = n, colour = colour Q,
                 pos = add (pos Q) (subtract (T ! nat (rotationState Q) ! 0)
                                      (T ! nat ((rotationState Q + 3) mod 4) ! 0)),
                 rotationState = (rotationState Q + 3) mod 4\<rparr>"
    and "validPos \<lparr>shape = n, colour = colour Q,
                 pos = add (pos Q) (subtract (T ! nat (rotationState Q) ! 0)
                                      (T ! nat ((rotationState Q + 3) mod 4) ! 0)),
                 rotationState = (rotationState Q + 3) mod 4\<rparr> f = Some True
         \<Longrightarrow> n \<noteq> []
         \<Longrightarrow> rotate_towards d Q f = first_candidate d Q"
proof -
  let ?to = "\<lparr>shape = n, colour = colour Q, pos = pos Q,
             rotationState = (rotationState Q + 3) mod 4\<rparr>"
  from assms(4)
  have rs: "(if js_rem (rotationState Q - 1) 4 \<ge> 0 then js_rem (rotationState Q - 1) 4
             else 4 + js_rem (rotationState Q - 1) 4) = (rotationState Q + 3) mod 4"
    by (auto simp: js_rem_def)
  from assms(2) have to: "rotateLeft_rotated Q = Some ?to"
    by (simp add: rotateLeft_rotated_def Let_def rs)
  from assms(4) have "rotationState ?to \<in> {0, 1, 2, 3}"
    by auto
  from getData_head [OF assms(3,4) this] obtain ks
    where ks: "getData Q ?to = Some (subtract (T ! nat (rotationState Q) ! 0)
                                       (T ! nat ((rotationState Q + 3) mod 4) ! 0) # ks)"
    by auto
  from to ks assms(1) show first: "first_candidate d Q =
           Some \<lparr>shape = n, colour = colour Q,
                 pos = add (pos Q) (subtract (T ! nat (rotationState Q) ! 0)
                                      (T ! nat ((rotationState Q + 3) mod 4) ! 0)),
                 rotationState = (rotationState Q + 3) mod 4\<rparr>"
    by (simp add: first_candidate_def moveBy_def)
  assume "validPos \<lparr>shape = n, colour = colour Q,
                 pos = add (pos Q) (subtract (T ! nat (rotationState Q) ! 0)
                                      (T ! nat ((rotationState Q + 3) mod 4) ! 0)),
                 rotationState = (rotationState Q + 3) mod 4\<rparr> f = Some True"
    and "n \<noteq> []"
  then have "private_rotate Q ?to f
               = Some (moveBy ?to (subtract (T ! nat (rotationState Q) ! 0)
                                     (T ! nat ((rotationState Q + 3) mod 4) ! 0)))"
    by (intro private_rotate_first [OF ks]) (simp_all add: moveBy_def)
  with to assms(1) first show "rotate_towards d Q f = first_candidate d Q"
    by (simp add: rotate_towards_def rotateLeft_def moveBy_def)
qed

lemma offsets_telescope:
  "add (add (add (add p (subtract a0 a1)) (subtract a1 a2)) (subtract a2 a3)) (subtract a3 a0) = p"
  by (cases p) (simp add: add_def subtract_def)


lemma first_candidate_step:
  assumes "(if 0 < d then rotateMatrixRight (shape Q) else rotateMatrixLeft (shape Q)) = Some n"
    and "n \<noteq> []" and "getData_offsets Q = Some T" and "rotationState Q \<in> {0, 1, 2, 3}"
    and "first_candidate d Q = Some Q'" and "validPos Q' B = Some True"
  shows "Q' = \<lparr>shape = n, colour = colour Q,
               pos = add (pos Q)
                       (subtract (T ! nat (rotationState Q) ! 0)
                          (T ! nat ((rotationState Q + (if 0 < d then 1 else 3)) mod 4) ! 0)),
               rotationState = (rotationState Q + (if 0 < d then 1 else 3)) mod 4\<rparr>
         \<and> rotate_towards d Q B = Some Q'"
proof (cases "0 < d")
  case True
  with assms(1) have n: "rotateMatrixRight (shape Q) = Some n" by simp
  from first_candidate_right(1) [OF True n assms(3,4)] assms(5) True
  have Q': "Q' = \<lparr>shape = n, colour = colour Q,
               pos = add (pos Q)
                       (subtract (T ! nat (rotationState Q) ! 0)
                          (T ! nat ((rotationState Q + 1) mod 4) ! 0)),
               rotationState = (rotationState Q + 1) mod 4\<rparr>"
    by simp
  with first_candidate_right(2) [OF True n assms(3,4), of B] assms(2,5,6) True show ?thesis
    by simp
next
  case False
  with assms(1) have n: "rotateMatrixLeft (shape Q) = Some n" by simp
  from first_candidate_left(1) [OF False n assms(3,4)] assms(5) False
  have Q': "Q' = \<lparr>shape = n, colour = colour Q,
               pos = add (pos Q)
                       (subtract (T ! nat (rotationState Q) ! 0)
                          (T ! nat ((rotationState Q + 3) mod 4) ! 0)),
               rotationState = (rotationState Q + 3) mod 4\<rparr>"
    by simp
  with first_candidate_left(2) [OF False n assms(3,4), of B] assms(2,5,6) False show ?thesis
    by simp
qed

lemma getData_offsets_total:
  assumes "rotateMatrixRight (shape a) = Some m1" "rotateMatrixRight m1 = Some m2"
    "rotateMatrixRight m2 = Some m3"
  shows "\<exists>T. getData_offsets a = Some T"
  by (simp add: getData_offsets_def simillarMatrix_cycle [OF assms])

text \<open>
  Claim C4, as stated, fails: a rotation that needs a wall kick moves the piece, and the
  later rotations do not move it back. On the empty floor, the T piece in rotation state 1
  at the left wall (x = -1) is valid; its first right rotation is kicked one column to the
  right, every intermediate piece is valid, and after four right rotations the piece has
  its shape and rotation state again but is at x = 0.
\<close>

theorem rotateRight_four_times_kicked:
  "validPos wallT emptyFloor = Some True
   \<and> rotateRight wallT emptyFloor
       = Some (wallT\<lparr>shape := map (map Num) [[0, 0, 0], [1, 1, 1], [0, 1, 0]],
                      pos := Pos 0 5, rotationState := 2\<rparr>)
   \<and> validPos (wallT\<lparr>shape := map (map Num) [[0, 0, 0], [1, 1, 1], [0, 1, 0]],
                      pos := Pos 0 5, rotationState := 2\<rparr>) emptyFloor = Some True
   \<and> rotateRight (wallT\<lparr>shape := map (map Num) [[0, 0, 0], [1, 1, 1], [0, 1, 0]],
                          pos := Pos 0 5, rotationState := 2\<rparr>) emptyFloor
       = Some (wallT\<lparr>shape := map (map Num) [[0, 1, 0], [1, 1, 0], [0, 1, 0]],
                      pos := Pos 0 5, rotationState := 3\<rparr>)
   \<and> validPos (wallT\<lparr>shape := map (map Num) [[0, 1, 0], [1, 1, 0], [0, 1, 0]],
                      pos := Pos 0 5, rotationState := 3\<rparr>) emptyFloor = Some True
   \<and> rotateRight (wallT\<lparr>shape := map (map Num) [[0, 1, 0], [1, 1, 0], [0, 1, 0]],
                          pos := Pos 0 5, rotationState := 3\<rparr>) emptyFloor
       = Some (wallT\<lparr>shape := TBlock, pos := Pos 0 5, rotationState := 0\<rparr>)
   \<and> validPos (wallT\<lparr>shape := TBlock, pos := Pos 0 5, rotationState := 0\<rparr>) emptyFloor
       = Some True
   \<and> rotateRight (wallT\<lparr>shape := TBlock, pos := Pos 0 5, rotationState := 0\<rparr>) emptyFloor
       = Some (wallT\<lparr>pos := Pos 0 5\<rparr>)
   \<and> shape (wallT\<lparr>pos := Pos 0 5\<rparr>) = shape wallT
   \<and> pos (wallT\<lparr>pos := Pos 0 5\<rparr>) \<noteq> pos wallT"
  by code_simp

text \<open>
  Claim C4, amended. Let the shape of the piece \<open>P\<close> be a matrix of \<open>R\<close> rows of \<open>C\<close> cells,
  with \<open>R\<close> and \<open>C\<close> positive, and its rotation state be one of 0, 1, 2, 3. Let \<open>P1\<close>, \<open>P2\<close>,
  \<open>P3\<close>, \<open>P4\<close> be the first wall-kick candidates of four successive rotations in one
  direction, starting from \<open>P\<close>. If each of them is valid against the floor \<open>B\<close> (any
  floor, the empty one included), then the four rotations return them in turn, and \<open>P4\<close>
  has the shape, the position and the rotation state of \<open>P\<close>.
\<close>

theorem rotate_four_times:
  assumes "rect R C (shape P)" and "0 < R" and "0 < C"
    and "rotationState P \<in> {0, 1, 2, 3}"
    and "first_candidate d P = Some P1" and "validPos P1 B = Some True"
    and "first_candidate d P1 = Some P2" and "validPos P2 B = Some True"
    and "first_candidate d P2 = Some P3" and "validPos P3 B = Some True"
    and "first_candidate d P3 = Some P4" and "validPos P4 B = Some True"
  shows "rotate_towards d P B = Some P1 \<and> rotate_towards d P1 B = Some P2
         \<and> rotate_towards d P2 B = Some P3 \<and> rotate_towards d P3 B = Some P4
         \<and> shape P4 = shape P \<and> pos P4 = pos P \<and> rotationState P4 = rotationState P"
proof -
  from rotateMatrixRight_four [OF assms(1-3)] obtain m1 m2 m3
    where rot: "rotateMatrixRight (shape P) = Some m1" "rotateMatrixRight m1 = Some m2"
      "rotateMatrixRight m2 = Some m3" "rotateMatrixRight m3 = Some (shape P)"
      and rects: "rect C R m1" "rect R C m2" "rect C R m3"
    by blast
  from rects assms(1-3) have ne: "m1 \<noteq> []" "m2 \<noteq> []" "m3 \<noteq> []" "shape P \<noteq> []"
    by (auto simp: rect_def)
  from getData_offsets_total [OF rot(1-3)] obtain T where T: "getData_offsets P = Some T"
    by blast
  define inc :: int where "inc = (if 0 < d then 1 else 3)"
  define n1 where "n1 = (if 0 < d then m1 else m3)"
  define n3 where "n3 = (if 0 < d then m3 else m1)"
  define a where "a r = T ! nat r ! 0" for r :: int
  let ?r = "rotationState P"
  have turn0: "(if 0 < d then rotateMatrixRight (shape P) else rotateMatrixLeft (shape P)) = Some n1"
    and turn1: "(if 0 < d then rotateMatrixRight n1 else rotateMatrixLeft n1) = Some m2"
    and turn2: "(if 0 < d then rotateMatrixRight m2 else rotateMatrixLeft m2) = Some n3"
    and turn3: "(if 0 < d then rotateMatrixRight n3 else rotateMatrixLeft n3) = Some (shape P)"
    using rot by (simp_all add: n1_def n3_def rotateMatrixLeft_def chain_js_3)
  have n_ne: "n1 \<noteq> []" "n3 \<noteq> []"
    using ne by (simp_all add: n1_def n3_def)
  from first_candidate_step [OF turn0 n_ne(1) T assms(4,5,6)]
  have P1: "P1 = \<lparr>shape = n1, colour = colour P,
                  pos = add (pos P) (subtract (a ?r) (a ((?r + inc) mod 4))),
                  rotationState = (?r + inc) mod 4\<rparr>"
    and R1: "rotate_towards d P B = Some P1"
    by (simp_all add: inc_def a_def)
  have T1: "getData_offsets P1 = Some T"
    using getData_offsets_cycle [OF rot, of P1] T by (auto simp: P1 n1_def)
  have r1: "rotationState P1 \<in> {0, 1, 2, 3}"
    using assms(4) by (auto simp: P1 inc_def)
  from turn1 have turn1': "(if 0 < d then rotateMatrixRight (shape P1) else rotateMatrixLeft (shape P1))
                             = Some m2"
    by (simp add: P1 split: if_splits)
  from first_candidate_step [OF turn1' ne(2) T1 r1 assms(7,8)]
  have P2: "P2 = \<lparr>shape = m2, colour = colour P,
                  pos = add (pos P1) (subtract (a (rotationState P1)) (a ((rotationState P1 + inc) mod 4))),
                  rotationState = (rotationState P1 + inc) mod 4\<rparr>"
    and R2: "rotate_towards d P1 B = Some P2"
    by (simp_all add: inc_def a_def P1)
  have T2: "getData_offsets P2 = Some T"
    using getData_offsets_cycle [OF rot, of P2] T by (auto simp: P2)
  have r2: "rotationState P2 \<in> {0, 1, 2, 3}"
    using r1 by (auto simp: P2 inc_def)
  from turn2 have turn2': "(if 0 < d then rotateMatrixRight (shape P2) else rotateMatrixLeft (shape P2))
                             = Some n3"
    by (simp add: P2 split: if_splits)
  from first_candidate_step [OF turn2' n_ne(2) T2 r2 assms(9,10)]
  have P3: "P3 = \<lparr>shape = n3, colour = colour P,
                  pos = add (pos P2) (subtract (a (rotationState P2)) (a ((rotationState P2 + inc) mod 4))),
                  rotationState = (rotationState P2 + inc) mod 4\<rparr>"
    and R3: "rotate_towards d P2 B = Some P3"
    by (simp_all add: inc_def a_def P2)
  have T3: "getData_offsets P3 = Some T"
    using getData_offsets_cycle [OF rot, of P3] T by (auto simp: P3 n3_def)
  have r3: "rotationState P3 \<in> {0, 1, 2, 3}"
    using r2 by (auto simp: P3 inc_def)
  from turn3 have turn3': "(if 0 < d then rotateMatrixRight (shape P3) else rotateMatrixLeft (shape P3))
                             = Some (shape P)"
    by (simp add: P3 split: if_splits)
  from first_candidate_step [OF turn3' ne(4) T3 r3 assms(11,12)]
  have P4: "P4 = \<lparr>shape = shape P, colour = colour P,
                  pos = add (pos P3) (subtract (a (rotationState P3)) (a ((rotationState P3 + inc) mod 4))),
                  rotationState = (rotationState P3 + inc) mod 4\<rparr>"
    and R4: "rotate_towards d P3 B = Some P4"
    by (simp_all add: inc_def a_def P3)
  have returns: "(rotationState P3 + inc) mod 4 = ?r"
    using assms(4) by (auto simp: P3 P2 P1 inc_def)
  have "pos P4 = add (add (add (add (pos P) (subtract (a ?r) (a (rotationState P1))))
                               (subtract (a (rotationState P1)) (a (rotationState P2))))
                          (subtract (a (rotationState P2)) (a (rotationState P3))))
                     (subtract (a (rotationState P3)) (a ?r))"
    by (simp add: P4 returns) (simp add: P3 P2 P1)
  then have "pos P4 = pos P"
    by (simp only: offsets_telescope)
  moreover have "shape P4 = shape P" "rotationState P4 = ?r"
    by (simp_all add: P4 returns)
  ultimately show ?thesis
    using R1 R2 R3 R4 by simp
qed

lemma midI_first_candidates:
  "rect 5 5 (shape midI) \<and> rotationState midI \<in> {0, 1, 2, 3}
   \<and> first_candidate 1 midI = Some midI1 \<and> validPos midI1 emptyFloor = Some True
   \<and> first_candidate 1 midI1 = Some midI2 \<and> validPos midI2 emptyFloor = Some True
   \<and> first_candidate 1 midI2 = Some midI3 \<and> validPos midI3 emptyFloor = Some True
   \<and> first_candidate 1 midI3 = Some midI \<and> validPos midI emptyFloor = Some True"
  by code_simp

theorem rotate_four_times_witness:
  "rotate_towards 1 midI emptyFloor = Some midI1 \<and> rotate_towards 1 midI1 emptyFloor = Some midI2
   \<and> rotate_towards 1 midI2 emptyFloor = Some midI3 \<and> rotate_towards 1 midI3 emptyFloor = Some midI
   \<and> pos midI1 \<noteq> pos midI"
proof -
  have rows: "(0::nat) < 5"
    by simp
  from midI_first_candidates
  have shape_ok: "rect 5 5 (shape midI)" and state_ok: "rotationState midI \<in> {0, 1, 2, 3}"
    and c1: "first_candidate 1 midI = Some midI1" and v1: "validPos midI1 emptyFloor = Some True"
    and c2: "first_candidate 1 midI1 = Some midI2" and v2: "validPos midI2 emptyFloor = Some True"
    and c3: "first_candidate 1 midI2 = Some midI3" and v3: "validPos midI3 emptyFloor = Some True"
    and c4: "first_candidate 1 midI3 = Some midI" and v4: "validPos midI emptyFloor = Some True"
    by blast+
  have moved: "pos midI1 \<noteq> pos midI"
    by (simp add: midI1_def midI_def)
  from rotate_four_times [OF shape_ok rows rows state_ok c1 v1 c2 v2 c3 v3 c4 v4] moved
  show ?thesis
    by blast
qed

section \<open>Rotation with wall kicks\<close>

lemma rotateMatrixLeft_rect:
  assumes "rect R C m" and "0 < R" and "0 < C"
  shows "\<exists>m'. rotateMatrixLeft m = Some m' \<and> rect C R m'
           \<and> (\<forall>i<C. \<forall>j<R. m' ! i ! j = m ! j ! (C - 1 - i))"
proof -
  from rotateMatrixRight_rect [OF assms(1,2)] obtain m1
    where m1: "rotateMatrixRight m = Some m1" "rect C R m1"
      "\<forall>i<C. \<forall>j<R. m1 ! i ! j = m ! (R - 1 - j) ! i"
    by blast
  from rotateMatrixRight_rect [OF m1(2) assms(3)] obtain m2
    where m2: "rotateMatrixRight m1 = Some m2" "rect R C m2"
      "\<forall>i<R. \<forall>j<C. m2 ! i ! j = m1 ! (C - 1 - j) ! i"
    by blast
  from rotateMatrixRight_rect [OF m2(2) assms(2)] obtain m3
    where m3: "rotateMatrixRight m2 = Some m3" "rect C R m3"
      "\<forall>i<C. \<forall>j<R. m3 ! i ! j = m2 ! (R - 1 - j) ! i"
    by blast
  have "m3 ! i ! j = m ! j ! (C - 1 - i)" if "i < C" "j < R" for i j
  proof -
    from that m3(3) have "m3 ! i ! j = m2 ! (R - 1 - j) ! i" by simp
    also from that m2(3) have "\<dots> = m1 ! (C - 1 - i) ! (R - 1 - j)" by simp
    also from that m1(3) have "\<dots> = m ! (R - 1 - (R - 1 - j)) ! (C - 1 - i)" by simp
    also from that have "\<dots> = m ! j ! (C - 1 - i)" by simp
    finally show ?thesis .
  qed
  moreover from m1(1) m2(1) m3(1) have "rotateMatrixLeft m = Some m3"
    by (simp add: rotateMatrixLeft_def chain_js_3)
  ultimately show ?thesis
    using m3(2) by blast
qed

lemma getData_offsets_eq:
  "getData_offsets from = Some T \<Longrightarrow>
     T = (if simillarMatrix (shape from) IBlock = Some True then I_OFFSETS
          else if simillarMatrix (shape from) OBlock = Some True then O_OFFSETS
          else JLSTZ_OFFSETS)"
  by (auto simp: getData_offsets_def Option.bind_eq_Some_conv split: if_splits)

lemma table_index_range:
  assumes "T = I_OFFSETS \<or> T = O_OFFSETS \<or> T = JLSTZ_OFFSETS" and "index T k = Some c"
  shows "k \<in> {0, 1, 2, 3}"
proof -
  from assms(1) have "length T = 4"
    by (auto simp: I_OFFSETS_def O_OFFSETS_def JLSTZ_OFFSETS_def)
  with assms(2) have "0 \<le> k" "k < 4"
    by (auto simp: index_def split: if_splits)
  then show ?thesis by auto
qed

lemma getData_SomeD:
  assumes "getData from to = Some ks"
  shows "\<exists>T current next. getData_offsets from = Some T
           \<and> index T (rotationState from) = Some current
           \<and> index T (rotationState to) = Some next
           \<and> length ks = length current \<and> length current \<le> length next
           \<and> (\<forall>i<length current. ks ! i = subtract (current ! i) (next ! i))"
proof -
  from assms obtain T current "next"
    where T: "getData_offsets from = Some T"
      and current: "index T (rotationState from) = Some current"
      and nxt: "index T (rotationState to) = Some next"
      and ks: "those (map (\<lambda>(p, i). map_option (subtract p) (index next (int i)))
                       (enumerate_from0 current)) = Some ks"
    by (auto simp: getData_def Option.bind_eq_Some_conv)
  from those_map_SomeD [OF ks]
  have len: "length ks = length current"
    and each: "\<forall>i<length current.
                 (case enumerate_from0 current ! i of
                    (p, i) \<Rightarrow> map_option (subtract p) (index next (int i))) = Some (ks ! i)"
    by simp_all
  have nth: "i < length next \<and> ks ! i = subtract (current ! i) (next ! i)" if "i < length current" for i
  proof -
    from that have "enumerate_from0 current ! i = (current ! i, i)"
      by (simp add: enumerate_from0_def)
    moreover from each that
    have "(case enumerate_from0 current ! i of
             (p, i) \<Rightarrow> map_option (subtract p) (index next (int i))) = Some (ks ! i)"
      by blast
    ultimately have "map_option (subtract (current ! i)) (index next (int i)) = Some (ks ! i)"
      by simp
    then show ?thesis
      by (auto simp: index_def split: if_splits)
  qed
  have "length current \<le> length next"
  proof (cases "length current")
    case 0
    then show ?thesis by simp
  next
    case (Suc n)
    with nth [of n] show ?thesis by simp
  qed
  with T current nxt len nth show ?thesis by blast
qed


text \<open>
  Claim C5. Let \<open>rotateRight\<close> (for a direction \<open>d > 0\<close>) or \<open>rotateLeft\<close> (otherwise)
  return \<open>r\<close> on a piece and a floor. Then the shape of the piece rotates to a shape
  \<open>sh\<close> (clockwise, or counterclockwise, cell by cell when the shape is rectangular), the
  rotation state of the piece is one of 0, 1, 2, 3, and the offset table chosen by the
  shape (\<open>I_OFFSETS\<close>, \<open>O_OFFSETS\<close> or \<open>JLSTZ_OFFSETS\<close>) has a row \<open>current\<close> at that state
  and a row \<open>next\<close> at the state after the turn. Candidate \<open>i\<close> is the piece with shape
  \<open>sh\<close>, the colour of the piece, the state after the turn, and the position of the piece
  moved by \<open>current[i] - next[i]\<close>. The result \<open>r\<close> is the first candidate, in the order of
  the table row, that is valid on the floor, every candidate before it being invalid; or,
  when every candidate is invalid, \<open>r\<close> is the original piece itself, with its shape,
  position and rotation state.
\<close>

theorem rotate_first_valid_or_unchanged:
  assumes "(0 < d \<and> rotateRight this f = Some r) \<or> (\<not> 0 < d \<and> rotateLeft this f = Some r)"
  shows "\<exists>sh current next.
           (if 0 < d then rotateMatrixRight (shape this) else rotateMatrixLeft (shape this)) = Some sh
         \<and> (\<forall>R C. rect R C (shape this) \<and> 0 < R \<and> 0 < C \<longrightarrow>
                rect C R sh
                \<and> (\<forall>i<C. \<forall>j<R. sh ! i ! j =
                      (if 0 < d then shape this ! (R - 1 - j) ! i else shape this ! j ! (C - 1 - i))))
         \<and> rotationState this \<in> {0, 1, 2, 3}
         \<and> (let T = (if simillarMatrix (shape this) IBlock = Some True then I_OFFSETS
                      else if simillarMatrix (shape this) OBlock = Some True then O_OFFSETS
                      else JLSTZ_OFFSETS);
                 turned = (rotationState this + (if 0 < d then 1 else 3)) mod 4;
                 candidate = (\<lambda>i. \<lparr>shape = sh, colour = colour this,
                                     pos = Pos (pos_x (pos this) + (pos_x (current ! i) - pos_x (next ! i)))
                                               (pos_y (pos this) + (pos_y (current ! i) - pos_y (next ! i))),
                                     rotationState = turned\<rparr>)
             in index T (rotationState this) = Some current
                \<and> index T turned = Some next
                \<and> length current \<le> length next
                \<and> ((\<exists>i<length current. r = candidate i
                        \<and> validPos (candidate i) f = Some True
                        \<and> (\<forall>j<i. validPos (candidate j) f = Some False))
                    \<or> ((\<forall>j<length current. validPos (candidate j) f = Some False) \<and> r = this)))"
proof -
  define turned where "turned = (rotationState this + (if 0 < d then 1 else 3)) mod 4"
  define T where "T = (if simillarMatrix (shape this) IBlock = Some True then I_OFFSETS
                      else if simillarMatrix (shape this) OBlock = Some True then O_OFFSETS
                      else JLSTZ_OFFSETS)"
  from assms obtain sh ns
    where sh: "(if 0 < d then rotateMatrixRight (shape this) else rotateMatrixLeft (shape this)) = Some sh"
      and ns: "rotationState this \<in> {0, 1, 2, 3} \<longrightarrow> ns = turned"
      and rotated: "private_rotate this
                      \<lparr>shape = sh, colour = colour this, pos = pos this, rotationState = ns\<rparr> f = Some r"
  proof (elim disjE conjE)
    assume right: "0 < d" "rotateRight this f = Some r"
    then obtain m where m: "rotateMatrixRight (shape this) = Some m"
      and pr: "private_rotate this \<lparr>shape = m, colour = colour this, pos = pos this,
                                rotationState = js_rem (rotationState this + 1) 4\<rparr> f = Some r"
      by (auto simp: rotateRight_def rotateRight_rotated_def Option.bind_eq_Some_conv)
    have eq: "rotationState this \<in> {0, 1, 2, 3} \<longrightarrow> js_rem (rotationState this + 1) 4 = turned"
      using right(1) by (auto simp: js_rem_def turned_def)
    show ?thesis
    proof (rule that)
      show "(if 0 < d then rotateMatrixRight (shape this) else rotateMatrixLeft (shape this)) = Some m"
        using right(1) m by simp
    qed (fact eq, fact pr)
  next
    assume left: "\<not> 0 < d" "rotateLeft this f = Some r"
    then obtain m where m: "rotateMatrixLeft (shape this) = Some m"
      and pr: "private_rotate this
             \<lparr>shape = m, colour = colour this, pos = pos this,
              rotationState = (if js_rem (rotationState this - 1) 4 \<ge> 0
                               then js_rem (rotationState this - 1) 4
                               else 4 + js_rem (rotationState this - 1) 4)\<rparr> f = Some r"
      by (auto simp: rotateLeft_def rotateLeft_rotated_def Option.bind_eq_Some_conv Let_def)
    have eq: "rotationState this \<in> {0, 1, 2, 3} \<longrightarrow>
                     (if js_rem (rotationState this - 1) 4 \<ge> 0
                      then js_rem (rotationState this - 1) 4
                      else 4 + js_rem (rotationState this - 1) 4) = turned"
      using left(1) by (auto simp: js_rem_def turned_def)
    show ?thesis
    proof (rule that)
      show "(if 0 < d then rotateMatrixRight (shape this) else rotateMatrixLeft (shape this)) = Some m"
        using left(1) m by simp
    qed (fact eq, fact pr)
  qed
  let ?to = "\<lparr>shape = sh, colour = colour this, pos = pos this, rotationState = ns\<rparr>"
  from private_rotate_SomeD [OF rotated] obtain ks
    where ks: "getData this ?to = Some ks"
      and result: "(\<exists>i<length ks. r = moveBy ?to (ks ! i)
                      \<and> validPos (moveBy ?to (ks ! i)) f = Some True
                      \<and> (\<forall>j<i. validPos (moveBy ?to (ks ! j)) f = Some False))
                   \<or> ((\<forall>j<length ks. validPos (moveBy ?to (ks ! j)) f = Some False) \<and> r = this)"
    by blast
  from getData_SomeD [OF ks] obtain T' current "next"
    where T': "getData_offsets this = Some T'"
      and current: "index T' (rotationState this) = Some current"
      and nxt: "index T' ns = Some next"
      and len: "length ks = length current" "length current \<le> length next"
      and diff: "\<forall>i<length current. ks ! i = subtract (current ! i) (next ! i)"
    by auto
  from getData_offsets_eq [OF T'] have TT: "T' = T"
    by (simp add: T_def)
  from table_index_range [OF getData_offsets_tables [OF T'] current]
  have state: "rotationState this \<in> {0, 1, 2, 3}" .
  with ns have turned: "ns = turned"
    by blast
  define candidate where "candidate i =
      \<lparr>shape = sh, colour = colour this,
       pos = Pos (pos_x (pos this) + (pos_x (current ! i) - pos_x (next ! i)))
                 (pos_y (pos this) + (pos_y (current ! i) - pos_y (next ! i))),
       rotationState = turned\<rparr>" for i
  have cand: "moveBy ?to (ks ! i) = candidate i" if "i < length current" for i
    using that diff by (simp add: candidate_def moveBy_def add_def subtract_def turned)
  have outcome: "(\<exists>i<length current. r = candidate i
                        \<and> validPos (candidate i) f = Some True
                        \<and> (\<forall>j<i. validPos (candidate j) f = Some False))
                    \<or> ((\<forall>j<length current. validPos (candidate j) f = Some False) \<and> r = this)"
    using result
  proof
    assume "\<exists>i<length ks. r = moveBy ?to (ks ! i)
              \<and> validPos (moveBy ?to (ks ! i)) f = Some True
              \<and> (\<forall>j<i. validPos (moveBy ?to (ks ! j)) f = Some False)"
    then obtain i where i: "i < length current" "r = moveBy ?to (ks ! i)"
      "validPos (moveBy ?to (ks ! i)) f = Some True"
      "\<forall>j<i. validPos (moveBy ?to (ks ! j)) f = Some False"
      using len(1) by auto
    have "\<forall>j<i. validPos (candidate j) f = Some False"
    proof (intro allI impI)
      fix j assume j: "j < i"
      with i(4) have "validPos (moveBy ?to (ks ! j)) f = Some False"
        by blast
      moreover from j i(1) have "moveBy ?to (ks ! j) = candidate j"
        by (intro cand) simp
      ultimately show "validPos (candidate j) f = Some False"
        by simp
    qed
    moreover from i(1) have "moveBy ?to (ks ! i) = candidate i"
      by (rule cand)
    ultimately show ?thesis
      using i(1-3) by auto
  next
    assume none: "(\<forall>j<length ks. validPos (moveBy ?to (ks ! j)) f = Some False) \<and> r = this"
    have "\<forall>j<length current. validPos (candidate j) f = Some False"
    proof (intro allI impI)
      fix j assume j: "j < length current"
      with none len(1) have "validPos (moveBy ?to (ks ! j)) f = Some False"
        by simp
      moreover from j have "moveBy ?to (ks ! j) = candidate j"
        by (rule cand)
      ultimately show "validPos (candidate j) f = Some False"
        by simp
    qed
    with none show ?thesis
      by blast
  qed
  have shaped: "\<forall>R C. rect R C (shape this) \<and> 0 < R \<and> 0 < C \<longrightarrow>
                rect C R sh
                \<and> (\<forall>i<C. \<forall>j<R. sh ! i ! j =
                      (if 0 < d then shape this ! (R - 1 - j) ! i else shape this ! j ! (C - 1 - i)))"
  proof (intro allI impI)
    fix R C
    assume rc: "rect R C (shape this) \<and> 0 < R \<and> 0 < C"
    show "rect C R sh
          \<and> (\<forall>i<C. \<forall>j<R. sh ! i ! j =
                (if 0 < d then shape this ! (R - 1 - j) ! i else shape this ! j ! (C - 1 - i)))"
    proof (cases "0 < d")
      case True
      with rotateMatrixRight_rect [of R C "shape this"] rc sh show ?thesis
        by auto
    next
      case False
      with rotateMatrixLeft_rect [of R C "shape this"] rc sh show ?thesis
        by auto
    qed
  qed
  from sh shaped state current nxt len(2) outcome show ?thesis
    unfolding TT turned T_def turned_def candidate_def Let_def
    by blast
qed


lemma rotateRight_wallT:
  "rotateRight wallT emptyFloor
     = Some (wallT\<lparr>shape := map (map Num) [[0, 0, 0], [1, 1, 1], [0, 1, 0]],
                    pos := Pos 0 5, rotationState := 2\<rparr>)
   \<and> rotateMatrixRight (shape wallT) = Some (map (map Num) [[0, 0, 0], [1, 1, 1], [0, 1, 0]])
   \<and> simillarMatrix (shape wallT) IBlock = Some False
   \<and> simillarMatrix (shape wallT) OBlock = Some False
   \<and> index JLSTZ_OFFSETS (rotationState wallT)
       = Some [Pos 0 0, Pos 1 0, Pos 1 1, Pos 0 (- 2), Pos 1 (- 2)]
   \<and> index JLSTZ_OFFSETS ((rotationState wallT + 1) mod 4)
       = Some [Pos 0 0, Pos 0 0, Pos 0 0, Pos 0 0, Pos 0 0]
   \<and> pos wallT = Pos (- 1) 5 \<and> colour wallT = Purple"
  by code_simp

lemma rotate_flatI:
  "rotateRight flatI narrowFloor = Some flatI \<and> rotateLeft flatI narrowFloor = Some flatI
   \<and> validPos flatI narrowFloor = Some True"
  by code_simp

theorem rotate_first_valid_or_unchanged_witness:
  "rotateRight wallT emptyFloor
     = Some (wallT\<lparr>shape := map (map Num) [[0, 0, 0], [1, 1, 1], [0, 1, 0]],
                    pos := Pos 0 5, rotationState := 2\<rparr>)
   \<and> validPos (wallT\<lparr>shape := map (map Num) [[0, 0, 0], [1, 1, 1], [0, 1, 0]],
                      rotationState := 2\<rparr>) emptyFloor = Some False
   \<and> validPos (wallT\<lparr>shape := map (map Num) [[0, 0, 0], [1, 1, 1], [0, 1, 0]],
                      pos := Pos 0 5, rotationState := 2\<rparr>) emptyFloor = Some True
   \<and> index JLSTZ_OFFSETS 1 = Some [Pos 0 0, Pos 1 0, Pos 1 1, Pos 0 (- 2), Pos 1 (- 2)]
   \<and> index JLSTZ_OFFSETS 2 = Some [Pos 0 0, Pos 0 0, Pos 0 0, Pos 0 0, Pos 0 0]
   \<and> rotateRight flatI narrowFloor = Some flatI
   \<and> rotateLeft flatI narrowFloor = Some flatI
   \<and> rotationState flatI \<in> {0, 1, 2, 3}"
proof -
  let ?sh = "map (map Num) [[0, 0, 0], [1, 1, 1], [0, 1, 0]]"
  let ?r = "wallT\<lparr>shape := ?sh, pos := Pos 0 5, rotationState := 2\<rparr>"
  from rotateRight_wallT
  have run: "rotateRight wallT emptyFloor = Some ?r"
    and sh: "rotateMatrixRight (shape wallT) = Some ?sh"
    and family: "simillarMatrix (shape wallT) IBlock = Some False"
      "simillarMatrix (shape wallT) OBlock = Some False"
    and current: "index JLSTZ_OFFSETS (rotationState wallT)
                    = Some [Pos 0 0, Pos 1 0, Pos 1 1, Pos 0 (- 2), Pos 1 (- 2)]"
    and nxt: "index JLSTZ_OFFSETS ((rotationState wallT + 1) mod 4)
                = Some [Pos 0 0, Pos 0 0, Pos 0 0, Pos 0 0, Pos 0 0]"
    and place: "pos wallT = Pos (- 1) 5" "colour wallT = Purple"
    by blast+
  have right: "((0::int) < 1 \<and> rotateRight wallT emptyFloor = Some ?r)
               \<or> (\<not> (0::int) < 1 \<and> rotateLeft wallT emptyFloor = Some ?r)"
    using run by simp
  define cand where "cand sh' cur nx i =
      \<lparr>shape = sh', colour = colour wallT,
       pos = Pos (pos_x (pos wallT) + (pos_x (cur ! i) - pos_x (nx ! i)))
                 (pos_y (pos wallT) + (pos_y (cur ! i) - pos_y (nx ! i))),
       rotationState = (rotationState wallT + (if (0::int) < 1 then 1 else 3)) mod 4\<rparr>"
    for sh' :: Shape and cur nx :: "Pos list" and i :: nat
  let ?tab = "if simillarMatrix (shape wallT) IBlock = Some True then I_OFFSETS
              else if simillarMatrix (shape wallT) OBlock = Some True then O_OFFSETS
              else JLSTZ_OFFSETS"
  from rotate_first_valid_or_unchanged [OF right, unfolded Let_def]
  obtain sh' cur nx
    where a: "(if (0::int) < 1 then rotateMatrixRight (shape wallT)
               else rotateMatrixLeft (shape wallT)) = Some sh'"
      and b: "index ?tab (rotationState wallT) = Some cur"
      and c: "index ?tab ((rotationState wallT + (if (0::int) < 1 then 1 else 3)) mod 4) = Some nx"
      and d: "(\<exists>i<length cur. ?r = cand sh' cur nx i
                 \<and> validPos (cand sh' cur nx i) emptyFloor = Some True
                 \<and> (\<forall>j<i. validPos (cand sh' cur nx j) emptyFloor = Some False))
              \<or> ((\<forall>j<length cur. validPos (cand sh' cur nx j) emptyFloor = Some False)
                  \<and> ?r = wallT)"
    by (elim exE conjE) (rule that; (assumption | (unfold cand_def, assumption)))
  from a sh have sh': "sh' = ?sh"
    by simp
  from family have tab: "?tab = JLSTZ_OFFSETS"
    by simp
  from b current have cur: "cur = [Pos 0 0, Pos 1 0, Pos 1 1, Pos 0 (- 2), Pos 1 (- 2)]"
    by (simp add: tab)
  from c nxt have nx: "nx = [Pos 0 0, Pos 0 0, Pos 0 0, Pos 0 0, Pos 0 0]"
    by (simp add: tab)
  have differs: "?r \<noteq> wallT"
    by (simp add: wallT_def)
  with d obtain i where i: "i < length cur" "?r = cand sh' cur nx i"
    "validPos (cand sh' cur nx i) emptyFloor = Some True"
    "\<forall>j<i. validPos (cand sh' cur nx j) emptyFloor = Some False"
    by blast
  from i(1) have "i = 0 \<or> i = 1 \<or> i = 2 \<or> i = 3 \<or> i = 4"
    by (simp add: cur) arith
  with i(2) have "i = 1"
    by (auto simp: cand_def cur nx sh' wallT_def)
  with i(4) have "validPos (cand sh' cur nx 0) emptyFloor = Some False"
    by simp
  then have first: "validPos (wallT\<lparr>shape := ?sh, rotationState := 2\<rparr>) emptyFloor = Some False"
    by (simp add: cand_def cur nx sh' wallT_def)
  from i(2,3) have second: "validPos ?r emptyFloor = Some True"
    by simp
  from rotate_flatI
  have left: "((0::int) < 0 \<and> rotateRight flatI narrowFloor = Some flatI)
               \<or> (\<not> (0::int) < 0 \<and> rotateLeft flatI narrowFloor = Some flatI)"
    by simp
  from rotate_first_valid_or_unchanged [OF left] have "rotationState flatI \<in> {0, 1, 2, 3}"
    by blast
  moreover from current nxt
  have "index JLSTZ_OFFSETS 1 = Some [Pos 0 0, Pos 1 0, Pos 1 1, Pos 0 (- 2), Pos 1 (- 2)]"
    and "index JLSTZ_OFFSETS 2 = Some [Pos 0 0, Pos 0 0, Pos 0 0, Pos 0 0, Pos 0 0]"
    by (simp_all add: wallT_def)
  ultimately show ?thesis
    using run first second rotate_flatI by blast
qed


end
